theory Spec2Isabelle
  imports Main
begin

section \<open>Data model of \<^verbatim>\<open>mysh_complete.c\<close>\<close>

text \<open>
  The shell keeps its state in module-level globals. They are gathered in one record that
  every function takes and returns. C \<^verbatim>\<open>int\<close> and \<^verbatim>\<open>pid_t\<close> values are modelled as
  \<^typ>\<open>int\<close>: the only arithmetic the shell does on them is \<^verbatim>\<open>njobs + 1\<close> (at most 64) and
  \<^verbatim>\<open>128 + WTERMSIG\<close> (at most 255), so no operation can wrap. A C string is the list of
  its bytes before the terminating NUL.
\<close>

definition MAX_LINE :: nat where "MAX_LINE = 4096"
definition MAX_ARGS :: nat where "MAX_ARGS = 128"
definition MAX_CMDS :: nat where "MAX_CMDS = 64"
definition MAX_REDIRECTS :: nat where "MAX_REDIRECTS = 16"
definition MAX_JOBS :: nat where "MAX_JOBS = 64"
definition MAX_VARS :: nat where "MAX_VARS = 256"

datatype job_state_t = JOB_RUNNING | JOB_STOPPED | JOB_DONE

record job_t =
  job_id :: int
  job_pgid :: int
  job_state :: job_state_t
  job_command :: string

record var_t =
  var_name :: string
  var_value :: string
  var_exported :: bool

text \<open>The three flag combinations the parser stores in \<^verbatim>\<open>redirect_t.flags\<close>.\<close>

datatype open_flags = O_RDONLY | O_WRONLY_CREAT_TRUNC | O_WRONLY_CREAT_APPEND

record redirect_t =
  redir_fd :: int
  redir_file :: string
  redir_flags :: open_flags

text \<open>
  \<^verbatim>\<open>args\<close> holds \<^verbatim>\<open>args[0..argc-1]\<close>; the entry \<^verbatim>\<open>args[argc]\<close> is the NULL the parser
  writes, so reading past the end of the list is reading NULL.
\<close>

record command_t =
  args :: "string list"
  redirects :: "redirect_t list"

record pipeline_t =
  cmds :: "command_t list"
  negate :: bool
  background :: bool

text \<open>
  What a file descriptor refers to: the terminal, a file opened with some flags, or one end
  of a pipe with number \<open>n\<close> (\<open>True\<close> for the write end).
\<close>

datatype stream = Tty | File string open_flags | PipeEnd nat bool

text \<open>
  The globals of the program (\<^verbatim>\<open>last_status\<close> to \<^verbatim>\<open>last_bg_pid\<close>; the arrays
  \<^verbatim>\<open>jobs[0..njobs-1]\<close> and \<^verbatim>\<open>vars[0..nvars-1]\<close> are lists, so \<^verbatim>\<open>njobs\<close> and
  \<^verbatim>\<open>nvars\<close> are their lengths), followed by the part of the process and of the operating
  system that the code reads and writes: its pid, its environment, its descriptor table, the
  files, what has been written to the terminal and to pipes, the terminal's foreground
  process group and the working directory.
\<close>

record shell =
  last_status :: int
  shell_pgid :: int
  interactive :: bool
  jobs :: "job_t list"
  vars :: "var_t list"
  last_bg_pid :: int
  self_pid :: int
  environ :: "string list"
  fdtab :: "int \<Rightarrow> stream option"
  fs :: "string \<Rightarrow> string option"
  tty_out :: string
  pipe_data :: "nat \<Rightarrow> string"
  tty_pgrp :: int
  cwd :: string

section \<open>Output\<close>

text \<open>
  \<^verbatim>\<open>printf\<close> writes to descriptor 1, \<^verbatim>\<open>fprintf(stderr, ...)\<close> and \<^verbatim>\<open>perror\<close> to
  descriptor 2. stdio buffering is not modelled: bytes reach the descriptor's target in
  program order. A write through a descriptor that is closed or read-only is lost.
\<close>

definition write_fd :: "int \<Rightarrow> string \<Rightarrow> shell \<Rightarrow> shell" where
  "write_fd fd s st =
     (case fdtab st fd of
        None \<Rightarrow> st
      | Some Tty \<Rightarrow> st\<lparr>tty_out := tty_out st @ s\<rparr>
      | Some (File path fl) \<Rightarrow>
          (if fl = O_RDONLY then st
           else st\<lparr>fs := (fs st)(path \<mapsto> (case fs st path of None \<Rightarrow> [] | Some c \<Rightarrow> c) @ s)\<rparr>)
      | Some (PipeEnd n w) \<Rightarrow>
          (if w then st\<lparr>pipe_data := (pipe_data st)(n := pipe_data st n @ s)\<rparr> else st))"

definition printf :: "string \<Rightarrow> shell \<Rightarrow> shell" where
  "printf s st = write_fd 1 s st"

definition eprintf :: "string \<Rightarrow> shell \<Rightarrow> shell" where
  "eprintf s st = write_fd 2 s st"

text \<open>The conversion \<^verbatim>\<open>%d\<close>.\<close>

fun digits :: "nat \<Rightarrow> string" where
  "digits n = (if n < 10 then [''0123456789'' ! n]
               else digits (n div 10) @ [''0123456789'' ! (n mod 10)])"

declare digits.simps [simp del]

definition show_int :: "int \<Rightarrow> string" where
  "show_int i = (if i < 0 then CHR ''-'' # digits (nat (- i)) else digits (nat i))"

section \<open>Job table\<close>

text \<open>
  \<^verbatim>\<open>add_job\<close> (lines 627-638): returns at once when the table is full; otherwise the new
  entry gets \<^verbatim>\<open>id = njobs + 1\<close>, and a background job is announced with the new
  \<^verbatim>\<open>njobs\<close>.
\<close>

definition add_job :: "int \<Rightarrow> string \<Rightarrow> bool \<Rightarrow> shell \<Rightarrow> shell" where
  "add_job pgid cmd bg st =
     (if length (jobs st) \<ge> MAX_JOBS then st
      else
        let st1 = st\<lparr>jobs := jobs st @
                     [\<lparr>job_id = int (length (jobs st)) + 1, job_pgid = pgid,
                       job_state = JOB_RUNNING, job_command = cmd\<rparr>]\<rparr>
        in if bg
           then printf (''['' @ show_int (int (length (jobs st1))) @ ''] '' @ show_int pgid @ ''\<newline>'') st1
           else st1)"

text \<open>\<^verbatim>\<open>find_job\<close> (lines 640-645): the index of the first entry with that pgid.\<close>

fun find_job :: "job_t list \<Rightarrow> int \<Rightarrow> nat option" where
  "find_job [] pgid = None"
| "find_job (j # js) pgid =
     (if job_pgid j = pgid then Some 0 else map_option Suc (find_job js pgid))"

text \<open>
  \<^verbatim>\<open>remove_job\<close> (lines 647-656): the first entry with that pgid is overwritten by
  \<^verbatim>\<open>memmove\<close> of the entries behind it, which keep all their fields.
\<close>

fun remove_first :: "job_t list \<Rightarrow> int \<Rightarrow> job_t list" where
  "remove_first [] pgid = []"
| "remove_first (j # js) pgid = (if job_pgid j = pgid then js else j # remove_first js pgid)"

definition remove_job :: "int \<Rightarrow> shell \<Rightarrow> shell" where
  "remove_job pgid st = st\<lparr>jobs := remove_first (jobs st) pgid\<rparr>"

section \<open>What the operating system answers\<close>

text \<open>
  The status a \<^verbatim>\<open>waitpid\<close> call stores. The program reads it only through the macros of
  \<^verbatim>\<open><sys/wait.h>\<close>, of which POSIX says that at most one of \<^verbatim>\<open>WIFEXITED\<close>,
  \<^verbatim>\<open>WIFSIGNALED\<close> and \<^verbatim>\<open>WIFSTOPPED\<close> holds: a datatype with the exit code, the
  terminating signal or the stopping signal, a continued child, and one more value for a
  status that is none of these (whatever is in \<^verbatim>\<open>wstatus\<close> when the call failed).
\<close>

datatype wait_status = WExited int | WSignaled int | WStopped int | WContinued | WOther

fun WIFEXITED :: "wait_status \<Rightarrow> bool" where
  "WIFEXITED (WExited e) = True"
| "WIFEXITED w = False"

fun WEXITSTATUS :: "wait_status \<Rightarrow> int" where
  "WEXITSTATUS (WExited e) = e"
| "WEXITSTATUS w = 0"

fun WIFSIGNALED :: "wait_status \<Rightarrow> bool" where
  "WIFSIGNALED (WSignaled n) = True"
| "WIFSIGNALED w = False"

fun WTERMSIG :: "wait_status \<Rightarrow> int" where
  "WTERMSIG (WSignaled n) = n"
| "WTERMSIG w = 0"

fun WIFSTOPPED :: "wait_status \<Rightarrow> bool" where
  "WIFSTOPPED (WStopped n) = True"
| "WIFSTOPPED w = False"

fun WIFCONTINUED :: "wait_status \<Rightarrow> bool" where
  "WIFCONTINUED WContinued = True"
| "WIFCONTINUED w = False"

text \<open>
  The answers of the system calls and library functions whose result the shell cannot
  compute from its own state. \<open>pipe_ok i\<close>: the \<open>i\<close>-th \<^verbatim>\<open>pipe\<close> call succeeds;
  \<open>fork_ret i\<close>: what the \<open>i\<close>-th \<^verbatim>\<open>fork\<close> returns in the parent; \<open>wait_ret i\<close>: what
  \<^verbatim>\<open>wstatus\<close> holds after the call \<^verbatim>\<open>waitpid(pids[i], &wstatus, WUNTRACED)\<close> of line 1180,
  whose return value the code does not test: the status of child \<open>i\<close> when the call
  succeeds, and the content of the uninitialised variable when it fails; \<open>fg_wait\<close>: the
  same for the \<^verbatim>\<open>waitpid\<close> of \<^verbatim>\<open>builtin_fg\<close>; \<open>chdir_ret cwd dir\<close>: the new working directory, or \<open>None\<close> when
  \<^verbatim>\<open>chdir\<close> fails; \<open>glob_ret pat\<close>: the paths \<^verbatim>\<open>glob(pat, GLOB_NOCHECK)\<close> finds, or
  \<open>None\<close> when it fails; \<open>pw_dir user\<close>: the home directory \<^verbatim>\<open>getpwnam\<close> gives;
  \<open>strerror\<close>: the text \<^verbatim>\<open>perror\<close> prints for the current \<^verbatim>\<open>errno\<close>.
\<close>

record os_t =
  pipe_ok :: "nat \<Rightarrow> bool"
  fork_ret :: "nat \<Rightarrow> int"
  wait_ret :: "nat \<Rightarrow> wait_status"
  fg_wait :: wait_status
  chdir_ret :: "string \<Rightarrow> string \<Rightarrow> string option"
  glob_ret :: "string \<Rightarrow> string list option"
  pw_dir :: "string \<Rightarrow> string option"
  strerror :: string

definition perror :: "os_t \<Rightarrow> string \<Rightarrow> shell \<Rightarrow> shell" where
  "perror os msg st = eprintf (msg @ '': '' @ strerror os @ ''\<newline>'') st"

text \<open>
  \<^verbatim>\<open>tcsetpgrp(shell_terminal, pgid)\<close>: \<^verbatim>\<open>shell_terminal\<close> is descriptor 0 and
  \<^verbatim>\<open>interactive\<close> is \<^verbatim>\<open>isatty(0)\<close>, so the call changes the terminal's foreground group
  only in an interactive shell (otherwise it fails with ENOTTY, which the code ignores).
\<close>

definition tcsetpgrp :: "int \<Rightarrow> shell \<Rightarrow> shell" where
  "tcsetpgrp pgid st = (if interactive st then st\<lparr>tty_pgrp := pgid\<rparr> else st)"

section \<open>The SIGCHLD handler\<close>

text \<open>
  \<^verbatim>\<open>sigchld_handler\<close> (lines 771-807). \<open>reports\<close> are the pids and statuses that the
  calls \<^verbatim>\<open>waitpid(-1, &status, WNOHANG | WUNTRACED | WCONTINUED)\<close> return, in order, until
  one returns no pid. A pid that is not the pgid of a job is skipped. The handler runs
  between two steps of the shell; when it runs is not part of this model.
\<close>

fun sigchld_handler :: "(int \<times> wait_status) list \<Rightarrow> shell \<Rightarrow> shell" where
  "sigchld_handler [] st = st"
| "sigchld_handler ((pid, status) # reports) st =
     (case find_job (jobs st) pid of
        None \<Rightarrow> sigchld_handler reports st
      | Some i \<Rightarrow>
          (let job = jobs st ! i in
           if WIFEXITED status \<or> WIFSIGNALED status
           then sigchld_handler reports
                  (remove_job pid
                     (printf (''['' @ show_int (job_id job) @ ''] Done    '' @ job_command job @
                              ''\<newline>'')
                        (st\<lparr>jobs := (jobs st)[i := job\<lparr>job_state := JOB_DONE\<rparr>]\<rparr>)))
           else if WIFSTOPPED status
           then sigchld_handler reports
                  (printf (''['' @ show_int (job_id job) @ ''] Stopped '' @ job_command job @
                           ''\<newline>'')
                     (st\<lparr>jobs := (jobs st)[i := job\<lparr>job_state := JOB_STOPPED\<rparr>]\<rparr>))
           else if WIFCONTINUED status
           then sigchld_handler reports
                  (st\<lparr>jobs := (jobs st)[i := job\<lparr>job_state := JOB_RUNNING\<rparr>]\<rparr>)
           else sigchld_handler reports st))"

text \<open>
  A sequence of operations on the job table: calls of \<^verbatim>\<open>add_job\<close> and \<^verbatim>\<open>remove_job\<close>,
  and runs of the handler.
\<close>

datatype job_op = Add int string bool | Remove int | Sigchld "(int \<times> wait_status) list"

fun apply_job_op :: "job_op \<Rightarrow> shell \<Rightarrow> shell" where
  "apply_job_op (Add pgid cmd bg) st = add_job pgid cmd bg st"
| "apply_job_op (Remove pgid) st = remove_job pgid st"
| "apply_job_op (Sigchld reports) st = sigchld_handler reports st"

fun apply_job_ops :: "job_op list \<Rightarrow> shell \<Rightarrow> shell" where
  "apply_job_ops [] st = st"
| "apply_job_ops (x # xs) st = apply_job_ops xs (apply_job_op x st)"

text \<open>
  The foreground wait after a run of the handler. An interactive shell installs
  \<^verbatim>\<open>sigchld_handler\<close> (\<^verbatim>\<open>init_signals\<close>) and never blocks SIGCHLD, so the handler may run
  while \<^verbatim>\<open>execute_pipeline\<close> waits for an earlier child of the pipeline. A child whose pid
  is among the \<open>reports\<close> of the handler's \<^verbatim>\<open>waitpid(-1, ...)\<close> has been collected there:
  the later \<^verbatim>\<open>waitpid(pids[i], &wstatus, WUNTRACED)\<close> of line 1180 fails with ECHILD and
  stores nothing, and \<^verbatim>\<open>wstatus\<close>, declared without initialiser on line 1179, holds an
  indeterminate value, \<open>stale i\<close>. For the other children the call stores the child's
  status, which is \<open>wait_ret os i\<close> of the given \<open>os\<close>.
\<close>

definition wait_after_handler ::
  "(int \<times> wait_status) list \<Rightarrow> (nat \<Rightarrow> wait_status) \<Rightarrow> os_t \<Rightarrow> os_t" where
  "wait_after_handler reports stale os =
     os\<lparr>wait_ret := (\<lambda>i. if fork_ret os i \<in> set (map fst reports) then stale i
                           else wait_ret os i)\<rparr>"

section \<open>Variables\<close>

text \<open>\<^verbatim>\<open>find_var\<close> (lines 445-452): the index of the first entry with that name.\<close>

fun find_var :: "var_t list \<Rightarrow> string \<Rightarrow> nat option" where
  "find_var [] name = None"
| "find_var (v # vs) name =
     (if var_name v = name then Some 0 else map_option Suc (find_var vs name))"

text \<open>
  The process environment is the array \<^verbatim>\<open>environ\<close> of strings \<^verbatim>\<open>name=value\<close>, read and
  written by the C library. An entry matches a name when it starts with the name and the
  next character is \<^verbatim>\<open>=\<close> (\<^verbatim>\<open>strncmp(name, *ep, len) == 0 && (*ep)[len] == '='\<close>).
\<close>

definition env_match :: "string \<Rightarrow> string \<Rightarrow> bool" where
  "env_match name e = (take (length name) e = name \<and> take 1 (drop (length name) e) = ''='')"

text \<open>
  \<^verbatim>\<open>getenv(name)\<close>: NULL for the empty name; otherwise the text behind the \<^verbatim>\<open>=\<close> of the
  first matching entry. A name that itself contains \<^verbatim>\<open>=\<close> is compared like any other,
  so \<^verbatim>\<open>A=B\<close> matches the entry \<^verbatim>\<open>A=B=C\<close>.
\<close>

definition getenv :: "shell \<Rightarrow> string \<Rightarrow> string option" where
  "getenv st name =
     (if name = [] then None
      else case List.find (env_match name) (environ st) of
             None \<Rightarrow> None
           | Some e \<Rightarrow> Some (drop (length name + 1) e))"

text \<open>
  \<^verbatim>\<open>setenv(name, value, 1)\<close>: fails (EINVAL, which the callers ignore) for an empty name
  or one that contains \<^verbatim>\<open>=\<close>; otherwise the first matching entry is replaced by
  \<^verbatim>\<open>name=value\<close>, or that string is appended when no entry matches.
\<close>

fun env_replace :: "string \<Rightarrow> string \<Rightarrow> string list \<Rightarrow> string list" where
  "env_replace name entry [] = [entry]"
| "env_replace name entry (e # es) =
     (if env_match name e then entry # es else e # env_replace name entry es)"

definition setenv :: "string \<Rightarrow> string \<Rightarrow> shell \<Rightarrow> shell" where
  "setenv name value st =
     (if name = [] \<or> CHR ''='' \<in> set name then st
      else st\<lparr>environ := env_replace name (name @ ''='' @ value) (environ st)\<rparr>)"

text \<open>
  \<^verbatim>\<open>set_var\<close> (lines 454-470). An existing entry gets the new value and its flag is raised
  when \<^verbatim>\<open>exported\<close> is set, never lowered; a new entry is stored while there is room;
  \<^verbatim>\<open>setenv\<close> is called when the parameter \<^verbatim>\<open>exported\<close> is set.
\<close>

definition set_var :: "string \<Rightarrow> string \<Rightarrow> bool \<Rightarrow> shell \<Rightarrow> shell" where
  "set_var name value exported st =
     (let st1 =
        (case find_var (vars st) name of
           Some i \<Rightarrow>
             (let v = vars st ! i;
                  v1 = v\<lparr>var_value := value\<rparr>;
                  v2 = (if exported then v1\<lparr>var_exported := True\<rparr> else v1)
              in st\<lparr>vars := (vars st)[i := v2]\<rparr>)
         | None \<Rightarrow>
             (if length (vars st) < MAX_VARS
              then st\<lparr>vars := vars st @
                     [\<lparr>var_name = name, var_value = value, var_exported = exported\<rparr>]\<rparr>
              else st))
      in if exported then setenv name value st1 else st1)"

text \<open>
  \<^verbatim>\<open>get_var\<close> (lines 472-491): the three special parameters, then the variable table, then
  the environment. \<open>None\<close> is the NULL that \<^verbatim>\<open>getenv\<close> returns.
\<close>

definition get_var :: "shell \<Rightarrow> string \<Rightarrow> string option" where
  "get_var st name =
     (if name = ''?'' then Some (show_int (last_status st))
      else if name = ''$'' then Some (show_int (self_pid st))
      else if name = ''!'' then Some (show_int (last_bg_pid st))
      else (case find_var (vars st) name of
              Some i \<Rightarrow> Some (var_value (vars st ! i))
            | None \<Rightarrow> getenv st name))"

section \<open>Builtins\<close>

text \<open>
  \<^verbatim>\<open>builtin_cd\<close> (lines 922-933). \<^verbatim>\<open>args[1]\<close> is NULL when the command has one argument.
\<close>

definition builtin_cd :: "os_t \<Rightarrow> command_t \<Rightarrow> shell \<Rightarrow> int \<times> shell" where
  "builtin_cd os cmd st =
     (case (case drop 1 (args cmd) of d # ds \<Rightarrow> Some d | [] \<Rightarrow> getenv st ''HOME'') of
        None \<Rightarrow> (1, eprintf ''cd: HOME not set\<newline>'' st)
      | Some dir \<Rightarrow>
          (case chdir_ret os (cwd st) dir of
             None \<Rightarrow> (1, perror os ''cd'' st)
           | Some d \<Rightarrow> (0, st\<lparr>cwd := d\<rparr>)))"

text \<open>
  \<^verbatim>\<open>builtin_export\<close> (lines 953-969), one argument: with a \<^verbatim>\<open>=\<close>, the text before the
  first \<^verbatim>\<open>=\<close> is the name and the text after it the value; without, a variable of the
  table is flagged and copied to the environment, and an unknown name is skipped.
\<close>

definition export_arg :: "string \<Rightarrow> shell \<Rightarrow> shell" where
  "export_arg a st =
     (if CHR ''='' \<in> set a
      then set_var (takeWhile (\<lambda>c. c \<noteq> CHR ''='') a)
             (drop 1 (dropWhile (\<lambda>c. c \<noteq> CHR ''='') a)) True st
      else (case find_var (vars st) a of
              Some i \<Rightarrow>
                (let v = (vars st ! i)\<lparr>var_exported := True\<rparr>
                 in setenv (var_name v) (var_value v) (st\<lparr>vars := (vars st)[i := v]\<rparr>))
            | None \<Rightarrow> st))"

definition builtin_export :: "command_t \<Rightarrow> shell \<Rightarrow> int \<times> shell" where
  "builtin_export cmd st = (0, fold export_arg (drop 1 (args cmd)) st)"

text \<open>
  \<^verbatim>\<open>builtin_fg\<close> (lines 971-994) takes the last job of the table. \<^verbatim>\<open>killpg\<close> acts on other
  processes only; what it brings about is the status that \<^verbatim>\<open>waitpid\<close> then stores.
\<close>

definition builtin_fg :: "os_t \<Rightarrow> shell \<Rightarrow> int \<times> shell" where
  "builtin_fg os st =
     (if length (jobs st) = 0 then (1, eprintf ''fg: no jobs\<newline>'' st)
      else
        let job = last (jobs st);
            st1 = tcsetpgrp (job_pgid job) st;
            status = fg_wait os;
            st2 = tcsetpgrp (shell_pgid st1) st1;
            st3 =
              (if WIFEXITED status
               then remove_job (job_pgid job) (st2\<lparr>last_status := WEXITSTATUS status\<rparr>)
               else if WIFSTOPPED status
               then st2\<lparr>jobs := (jobs st2)[length (jobs st2) - 1 := job\<lparr>job_state := JOB_STOPPED\<rparr>]\<rparr>
               else st2)
        in (last_status st3, st3))"

text \<open>\<^verbatim>\<open>builtin_bg\<close> (lines 996-1009).\<close>

definition builtin_bg :: "shell \<Rightarrow> int \<times> shell" where
  "builtin_bg st =
     (if length (jobs st) = 0 then (1, eprintf ''bg: no jobs\<newline>'' st)
      else
        let job = last (jobs st)
        in if job_state job = JOB_STOPPED
           then (0, st\<lparr>jobs := (jobs st)[length (jobs st) - 1 := job\<lparr>job_state := JOB_RUNNING\<rparr>]\<rparr>)
           else (0, st))"

text \<open>\<^verbatim>\<open>builtin_jobs\<close> (lines 1011-1018): one \<^verbatim>\<open>printf\<close> per job, in table order.\<close>

definition job_line :: "job_t \<Rightarrow> string" where
  "job_line j =
     ''['' @ show_int (job_id j) @ ''] '' @
     (if job_state j = JOB_RUNNING then ''Running'' else ''Stopped'') @
     ''    '' @ job_command j @ ''\<newline>''"

definition builtin_jobs :: "shell \<Rightarrow> int \<times> shell" where
  "builtin_jobs st = (0, fold (\<lambda>j. printf (job_line j)) (jobs st) st)"

definition is_builtin :: "string \<Rightarrow> bool" where
  "is_builtin cmd =
     (cmd = ''cd'' \<or> cmd = ''export'' \<or> cmd = ''fg'' \<or> cmd = ''bg'' \<or> cmd = ''jobs'')"

text \<open>
  \<^verbatim>\<open>run_builtin\<close> (lines 1028-1035). Both callers test \<^verbatim>\<open>is_builtin(args[0])\<close> first, so
  it is never reached with an empty argument list; the first case stands for that.
\<close>

definition run_builtin :: "os_t \<Rightarrow> command_t \<Rightarrow> shell \<Rightarrow> int \<times> shell" where
  "run_builtin os cmd st =
     (case args cmd of
        [] \<Rightarrow> (1, st)
      | a0 # as \<Rightarrow>
          if a0 = ''cd'' then builtin_cd os cmd st
          else if a0 = ''export'' then builtin_export cmd st
          else if a0 = ''fg'' then builtin_fg os st
          else if a0 = ''bg'' then builtin_bg st
          else if a0 = ''jobs'' then builtin_jobs st
          else (1, st))"

section \<open>Pipeline execution\<close>

text \<open>
  How a run of the shell's code can end other than by returning: \<^verbatim>\<open>exit\<close> (from
  \<^verbatim>\<open>die\<close>), with the final state; a read through a NULL pointer; a write behind the end
  of a fixed-size array.
\<close>

datatype fault = Exit int shell | NullDeref | OutOfBounds

text \<open>The C operator \<^verbatim>\<open>!\<close> on an \<^verbatim>\<open>int\<close>.\<close>

definition c_not :: "int \<Rightarrow> int" where
  "c_not x = (if x = 0 then 1 else 0)"

text \<open>
  The parent's side of the fork loop (lines 1093-1161) for the commands \<open>is\<close>: a negative
  result of \<^verbatim>\<open>fork\<close> ends the shell; the first child's pid becomes \<^verbatim>\<open>pgid\<close>, and the
  terminal is handed to it for an interactive foreground pipeline. (\<^verbatim>\<open>fork\<close> returns 0
  only in the child; the child's branch, lines 1097-1148, runs in another process and is
  not part of this model.) The result is \<^verbatim>\<open>pgid\<close> and the state.
\<close>

fun fork_loop :: "os_t \<Rightarrow> pipeline_t \<Rightarrow> nat list \<Rightarrow> int \<Rightarrow> shell \<Rightarrow> fault + (int \<times> shell)" where
  "fork_loop os pl [] pgid st = Inr (pgid, st)"
| "fork_loop os pl (i # is) pgid st =
     (let pid = fork_ret os i in
      if pid < 0 then Inl (Exit 1 (perror os ''fork'' st))
      else if i = 0
      then fork_loop os pl is pid
             (if interactive st \<and> \<not> background pl then tcsetpgrp pid st else st)
      else fork_loop os pl is pgid st)"

text \<open>
  The wait loop (lines 1177-1198) over the commands \<open>is\<close> of a pipeline of \<open>n\<close> commands:
  \<open>None\<close> when a child is reported stopped, else the final value of \<^verbatim>\<open>status\<close>.
\<close>

fun wait_loop :: "os_t \<Rightarrow> nat \<Rightarrow> nat list \<Rightarrow> int \<Rightarrow> int option" where
  "wait_loop os n [] status = Some status"
| "wait_loop os n (i # is) status =
     (let wstatus = wait_ret os i in
      if WIFSTOPPED wstatus then None
      else if i = n - 1
      then (if WIFEXITED wstatus then wait_loop os n is (WEXITSTATUS wstatus)
            else if WIFSIGNALED wstatus then wait_loop os n is (128 + WTERMSIG wstatus)
            else wait_loop os n is status)
      else wait_loop os n is status)"

definition arg0 :: "command_t \<Rightarrow> string option" where
  "arg0 cmd = (case args cmd of [] \<Rightarrow> None | a # as \<Rightarrow> Some a)"

text \<open>
  The test of line 1078, \<^verbatim>\<open>ncmds == 1 && is_builtin(cmds[0].args[0]) && !background\<close>.
\<close>

definition fast_path :: "pipeline_t \<Rightarrow> bool" where
  "fast_path pl =
     (case cmds pl of
        [c] \<Rightarrow> (case arg0 c of Some a \<Rightarrow> is_builtin a \<and> \<not> background pl | None \<Rightarrow> False)
      | cs \<Rightarrow> False)"

text \<open>
  \<^verbatim>\<open>execute_pipeline\<close> (lines 1074-1205), in the shell process. The result is the returned
  status and the state. With one command and no argument, \<^verbatim>\<open>args[0]\<close> is NULL and
  \<^verbatim>\<open>is_builtin\<close> passes it to \<^verbatim>\<open>strcmp\<close>. The pipes are created and closed again in the
  parent, so they leave its descriptor table as it was.
\<close>

definition execute_pipeline :: "os_t \<Rightarrow> pipeline_t \<Rightarrow> shell \<Rightarrow> fault + (int \<times> shell)" where
  "execute_pipeline os pl st =
     (let n = length (cmds pl) in
      if n = 0 then Inr (0, st)
      else if n = 1 \<and> arg0 (hd (cmds pl)) = None then Inl NullDeref
      else if fast_path pl
      then (let (status, st1) = run_builtin os (hd (cmds pl)) st
            in Inr (if negate pl then c_not status else status, st1))
      else if list_ex (\<lambda>i. \<not> pipe_ok os i) [0..<n - 1]
      then Inl (Exit 1 (perror os ''pipe'' st))
      else
        (case fork_loop os pl [0..<n] 0 st of
           Inl f \<Rightarrow> Inl f
         | Inr (pgid, st1) \<Rightarrow>
             (let st2 = st1\<lparr>last_bg_pid := pgid\<rparr> in
              if background pl
              then Inr (0, add_job pgid ''background job'' True st2)
              else
                (case wait_loop os n [0..<n] 0 of
                   None \<Rightarrow>
                     (let st3 = add_job pgid ''stopped job'' False st2;
                          st4 = printf (''['' @ show_int (int (length (jobs st3))) @
                                        ''] Stopped\<newline>'') st3
                      in Inr (0, if interactive st4 then tcsetpgrp (shell_pgid st4) st4 else st4))
                 | Some status \<Rightarrow>
                     Inr (if negate pl then c_not status else status,
                          if interactive st2 then tcsetpgrp (shell_pgid st2) st2 else st2)))))"

section \<open>Expansion\<close>

definition isalnum :: "char \<Rightarrow> bool" where
  "isalnum c =
     (let k = (of_char c :: nat)
      in (48 \<le> k \<and> k \<le> 57) \<or> (65 \<le> k \<and> k \<le> 90) \<or> (97 \<le> k \<and> k \<le> 122))"

definition isspace :: "char \<Rightarrow> bool" where
  "isspace c = (let k = (of_char c :: nat) in k = 32 \<or> (9 \<le> k \<and> k \<le> 13))"

text \<open>The characters the loop of line 1231 takes into \<^verbatim>\<open>varname\<close>.\<close>

definition name_char :: "char \<Rightarrow> bool" where
  "name_char c =
     (isalnum c \<or> c = CHR ''_'' \<or> c = CHR ''?'' \<or> c = CHR ''$'' \<or> c = CHR ''!'')"

text \<open>
  The copy loops \<^verbatim>\<open>while (*val && out < buf + MAX_LINE - 1) *out++ = *val++\<close>; a NULL
  value copies nothing.
\<close>

definition copy_bounded :: "string \<Rightarrow> string option \<Rightarrow> string" where
  "copy_bounded out val =
     (case val of None \<Rightarrow> out | Some v \<Rightarrow> out @ take (MAX_LINE - 1 - length out) v)"

text \<open>
  \<^verbatim>\<open>expand_word\<close> (lines 1213-1274). \<open>p\<close> is the rest of the word from the pointer
  \<^verbatim>\<open>p\<close> on, \<open>prev\<close> the character \<^verbatim>\<open>*(p-1)\<close> (\<open>None\<close> when \<^verbatim>\<open>p == word\<close>) and \<open>out\<close>
  the bytes written to \<^verbatim>\<open>buf\<close> so far. The name loops stop after 255 characters.
\<close>

function expand_loop :: "os_t \<Rightarrow> shell \<Rightarrow> char option \<Rightarrow> string \<Rightarrow> string \<Rightarrow> string" where
  "expand_loop os st prev out p =
     (case p of
        [] \<Rightarrow> out
      | c # cs \<Rightarrow>
          if \<not> length out < MAX_LINE - 1 then out
          else if c = CHR ''$'' then
            (if take 1 cs = ''{'' then
               (let body = drop 1 cs;
                    varname = take 255 (takeWhile (\<lambda>x. x \<noteq> CHR ''}'') body);
                    r = drop (length varname) body;
                    closed = (take 1 r = ''}'');
                    out1 = copy_bounded out (get_var st varname)
                in if closed then expand_loop os st (Some (CHR ''}'')) out1 (drop 1 r)
                   else expand_loop os st (Some (last (CHR ''{'' # varname))) out1 r)
             else
               (let varname = take 255 (takeWhile name_char cs);
                    r = drop (length varname) cs
                in expand_loop os st (Some (last (c # varname)))
                     (copy_bounded out (get_var st varname)) r))
          else if c = CHR ''~'' \<and> (prev = None \<or> prev = Some (CHR '':'')) then
            (if take 1 cs = ''/'' \<or> cs = [] then
               expand_loop os st (Some c) (copy_bounded out (getenv st ''HOME'')) cs
             else
               (let username = take 255 (takeWhile (\<lambda>x. x \<noteq> CHR ''/'') cs);
                    r = drop (length username) cs
                in expand_loop os st (Some (last (c # username)))
                     (copy_bounded out (pw_dir os username)) r))
          else expand_loop os st (Some c) (out @ [c]) cs)"
  by pat_completeness auto
termination
  by (relation "measure (\<lambda>(os, st, prev, out, p). length p)") auto

declare expand_loop.simps [simp del]

definition expand_word :: "os_t \<Rightarrow> shell \<Rightarrow> string \<Rightarrow> string" where
  "expand_word os st word = expand_loop os st None [] word"

section \<open>Tokenizer\<close>

definition is_quote :: "char \<Rightarrow> bool" where
  "is_quote c = (c = CHR 0x22 \<or> c = CHR 0x27)"

text \<open>
  The inner loop of \<^verbatim>\<open>tokenize\<close> (lines 1293-1299), from the first character of a token:
  the characters it steps over, which are the token.
\<close>

fun scan_token :: "bool \<Rightarrow> string \<Rightarrow> string" where
  "scan_token in_quote [] = []"
| "scan_token in_quote (c # cs) =
     (if in_quote \<or> \<not> isspace c
      then c # scan_token (if is_quote c then \<not> in_quote else in_quote) cs
      else [])"

text \<open>
  The outer loop (lines 1287-1302) with \<open>n\<close> tokens stored and \<open>p\<close> the rest of the line:
  white space is skipped, a token is scanned, and the character that ended it is
  overwritten with NUL and stepped over.
\<close>

function tokenize_from :: "nat \<Rightarrow> string \<Rightarrow> string list" where
  "tokenize_from n p =
     (if p \<noteq> [] \<and> n < MAX_ARGS - 1
      then
        (let p1 = dropWhile isspace p in
         if p1 = [] then []
         else
           (let tok = scan_token False p1
            in tok # tokenize_from (Suc n) (drop 1 (drop (length tok) p1))))
      else [])"
  by pat_completeness auto
termination
proof (relation "measure (\<lambda>(n, p). length p)")
  show "wf (measure (\<lambda>(n, p). length p))"
    by simp
next
  fix n :: nat and p p1 tok :: string
  assume p1: "p1 = dropWhile isspace p" and ne: "p1 \<noteq> []"
  have "length p1 \<le> length p"
    unfolding p1 by (rule length_dropWhile_le)
  moreover have "length p1 - Suc (length tok) < length p1"
    using ne by (cases p1) (simp_all add: less_Suc_eq_le)
  ultimately show "((Suc n, drop 1 (drop (length tok) p1)), (n, p)) \<in> measure (\<lambda>(n, p). length p)"
    by simp
qed

declare tokenize_from.simps [simp del]

definition tokenize :: "string \<Rightarrow> string list" where
  "tokenize line = tokenize_from 0 line"

section \<open>Parser\<close>

definition empty_cmd :: command_t where
  "empty_cmd = \<lparr>args = [], redirects = []\<rparr>"

text \<open>
  A redirection operator with a token behind it (lines 1454-1510): the flags stored for
  the operator, or \<open>None\<close> for any other token.
\<close>

definition redirect_op :: "string \<Rightarrow> (int \<times> open_flags) option" where
  "redirect_op t =
     (if t = ''<'' then Some (0, O_RDONLY)
      else if t = ''>'' then Some (1, O_WRONLY_CREAT_TRUNC)
      else if t = ''>>'' then Some (1, O_WRONLY_CREAT_APPEND)
      else None)"

text \<open>
  The branch for a regular token (lines 1511-1598): an assignment while assignments are
  still allowed, else an argument, expanded and, with \<^verbatim>\<open>*\<close> or \<^verbatim>\<open>?\<close> in it, globbed.
  The glob loop stops at \<^verbatim>\<open>MAX_ARGS - 1\<close> arguments; the plain store does not check, and
  once \<^verbatim>\<open>argc\<close> is \<^verbatim>\<open>MAX_ARGS\<close> the terminating NULL is written behind the array. The
  result is the current command, the assignment mode and the state.
\<close>

definition regular_token ::
    "os_t \<Rightarrow> string \<Rightarrow> command_t \<Rightarrow> bool \<Rightarrow> shell \<Rightarrow> fault + (command_t \<times> bool \<times> shell)" where
  "regular_token os t cur in_assignments st =
     (if in_assignments \<and> CHR ''='' \<in> set t
      then Inr (cur, in_assignments,
                set_var (takeWhile (\<lambda>c. c \<noteq> CHR ''='') t)
                  (drop 1 (dropWhile (\<lambda>c. c \<noteq> CHR ''='') t)) False st)
      else
        let expanded = expand_word os st t in
        if CHR ''*'' \<in> set expanded \<or> CHR ''?'' \<in> set expanded
        then (case glob_ret os expanded of
                None \<Rightarrow> Inr (cur, False, st)
              | Some paths \<Rightarrow>
                  Inr (cur\<lparr>args := args cur @ take (MAX_ARGS - 1 - length (args cur)) paths\<rparr>,
                       False, st))
        else if length (args cur) \<ge> MAX_ARGS - 1 then Inl OutOfBounds
        else Inr (cur\<lparr>args := args cur @ [expanded]\<rparr>, False, st))"

text \<open>
  The token loop (lines 1420-1600): \<open>done\<close> are the finished commands, \<open>cur\<close> the
  command being filled. Neither \<^verbatim>\<open>ncmds\<close> nor \<^verbatim>\<open>nredirects\<close> is checked against the
  size of its array.
\<close>

fun parse_loop ::
    "os_t \<Rightarrow> string list \<Rightarrow> command_t list \<Rightarrow> command_t \<Rightarrow> bool \<Rightarrow> shell
     \<Rightarrow> fault + (command_t list \<times> shell)" where
  "parse_loop os [] done cur in_assignments st = Inr (done @ [cur], st)"
| "parse_loop os (t # ts) done cur in_assignments st =
     (if t = ''|''
      then (if length done + 1 \<ge> MAX_CMDS then Inl OutOfBounds
            else parse_loop os ts (done @ [cur]) empty_cmd True st)
      else
        (case (redirect_op t, ts) of
           (Some (fd, fl), file # ts1) \<Rightarrow>
             if length (redirects cur) \<ge> MAX_REDIRECTS then Inl OutOfBounds
             else parse_loop os ts1 done
                    (cur\<lparr>redirects := redirects cur @
                       [\<lparr>redir_fd = fd, redir_file = expand_word os st file, redir_flags = fl\<rparr>]\<rparr>)
                    in_assignments st
         | other \<Rightarrow>
             (case regular_token os t cur in_assignments st of
                Inl f \<Rightarrow> Inl f
              | Inr (cur1, ia1, st1) \<Rightarrow> parse_loop os ts done cur1 ia1 st1)))"

text \<open>
  \<^verbatim>\<open>parse_pipeline\<close> (lines 1354-1630): a leading \<^verbatim>\<open>!\<close> and a trailing \<^verbatim>\<open>&\<close> are
  taken off, the rest goes through the token loop. The result is the return value (the
  pipeline is valid), the pipeline and the state.
\<close>

definition parse_pipeline ::
    "os_t \<Rightarrow> string list \<Rightarrow> shell \<Rightarrow> fault + (bool \<times> pipeline_t \<times> shell)" where
  "parse_pipeline os tokens st =
     (let neg = (length tokens > 0 \<and> take 1 tokens = [''!'']);
          bg = (length tokens > 0 \<and> last tokens = ''&'');
          toks = drop (if neg then 1 else 0) (if bg then butlast tokens else tokens)
      in case parse_loop os toks [] empty_cmd True st of
           Inl f \<Rightarrow> Inl f
         | Inr (cs, st1) \<Rightarrow>
             Inr (length cs > 0 \<and>
                    (length (args (hd cs)) > 0 \<or> length (redirects (hd cs)) > 0),
                  \<lparr>cmds = cs, negate = neg, background = bg\<rparr>, st1))"

section \<open>The read loop\<close>

text \<open>
  Steps 5 and 6 of the loop body of \<^verbatim>\<open>main\<close> (lines 2012-2038): the tokens are parsed,
  and a valid pipeline is executed and its status stored in \<^verbatim>\<open>last_status\<close>. An invalid
  one is dropped without a message and leaves \<^verbatim>\<open>last_status\<close> as it is.
\<close>

definition run_tokens :: "os_t \<Rightarrow> string list \<Rightarrow> shell \<Rightarrow> fault + shell" where
  "run_tokens os tokens st =
     (case parse_pipeline os tokens st of
        Inl f \<Rightarrow> Inl f
      | Inr (valid, pl, st1) \<Rightarrow>
          if valid
          then (case execute_pipeline os pl st1 of
                  Inl f \<Rightarrow> Inl f
                | Inr (status, st2) \<Rightarrow> Inr (st2\<lparr>last_status := status\<rparr>))
          else Inr st1)"

text \<open>
  One turn of the loop of \<^verbatim>\<open>main\<close> (lines 1892-2088) after \<^verbatim>\<open>fgets\<close> has stored the
  string \<open>raw\<close>: the prompt (printed before the read), the \<^verbatim>\<open>printf("TTT")\<close> of line
  1954, the cut at the first newline, and then the tokenizer and, for a line with at least
  one token, steps 5 and 6.
\<close>

definition main_iteration :: "os_t \<Rightarrow> string \<Rightarrow> shell \<Rightarrow> fault + shell" where
  "main_iteration os raw st =
     (let st1 = (if interactive st then printf ''$ '' st else st);
          st2 = printf ''TTT'' st1;
          line = takeWhile (\<lambda>c. c \<noteq> CHR 0x0A) raw
      in if line = [] then Inr st2
         else
           let tokens = tokenize line in
           if length tokens = 0 then Inr st2
           else run_tokens os tokens st2)"

text \<open>Several turns, each with the answers of the operating system during that turn.\<close>

fun main_loop :: "(os_t \<times> string) list \<Rightarrow> shell \<Rightarrow> fault + shell" where
  "main_loop [] st = Inr st"
| "main_loop ((os, raw) # rest) st =
     (case main_iteration os raw st of Inl f \<Rightarrow> Inl f | Inr st1 \<Rightarrow> main_loop rest st1)"

section \<open>Concrete states and answers\<close>

text \<open>
  The state after \<^verbatim>\<open>init_shell\<close> in an interactive shell with pid 1000, an empty
  environment, no files, and the terminal on descriptors 0, 1 and 2.
\<close>

definition init_state :: shell where
  "init_state =
     \<lparr>last_status = 0, shell_pgid = 1000, interactive = True, jobs = [], vars = [],
      last_bg_pid = 0, self_pid = 1000, environ = [],
      fdtab = (\<lambda>fd. if fd = 0 \<or> fd = 1 \<or> fd = 2 then Some Tty else None),
      fs = (\<lambda>path. None), tty_out = [], pipe_data = (\<lambda>n. []), tty_pgrp = 1000, cwd = ''/''\<rparr>"

text \<open>
  An operating system in which every call succeeds: the \<open>i\<close>-th child gets pid
  \<open>first_pid + i\<close>, and every child exits with the status \<open>code\<close>.
\<close>

definition os_ok :: "int \<Rightarrow> int \<Rightarrow> os_t" where
  "os_ok first_pid code =
     \<lparr>pipe_ok = (\<lambda>i. True), fork_ret = (\<lambda>i. first_pid + int i),
      wait_ret = (\<lambda>i. WExited code), fg_wait = WExited code,
      chdir_ret = (\<lambda>d dir. Some dir), glob_ret = (\<lambda>pat. Some [pat]),
      pw_dir = (\<lambda>user. None), strerror = ''error''\<rparr>"

text \<open>A job table that is full.\<close>

definition full_table :: shell where
  "full_table =
     init_state\<lparr>jobs := replicate 64
       \<lparr>job_id = 1, job_pgid = 100, job_state = JOB_RUNNING, job_command = ''background job''\<rparr>\<rparr>"

text \<open>A command without redirections.\<close>

definition simple_cmd :: "string list \<Rightarrow> command_t" where
  "simple_cmd as = \<lparr>args = as, redirects = []\<rparr>"

text \<open>
  Two children: the first exits with status 1, the second is killed by signal 9.
\<close>

definition os_last_killed :: os_t where
  "os_last_killed = (os_ok 100 1)\<lparr>wait_ret := (\<lambda>i. if i = 0 then WExited 1 else WSignaled 9)\<rparr>"

text \<open>
  The pipeline \<^verbatim>\<open>sleep 1 | ./exit3.sh\<close>, where \<^verbatim>\<open>exit3.sh\<close> is a script that exits with
  status 3 at once; and its two children, with pids 100 and 101: the first exits with
  status 0 after a second, the second with status 3.
\<close>

definition sleep_exit3 :: pipeline_t where
  "sleep_exit3 =
     \<lparr>cmds = [simple_cmd [''sleep'', ''1''], simple_cmd [''./exit3.sh'']], negate = False,
      background = False\<rparr>"

definition os_exit3 :: os_t where
  "os_exit3 = (os_ok 100 0)\<lparr>wait_ret := (\<lambda>i. if i = 1 then WExited 3 else WExited 0)\<rparr>"

section \<open>Notions used to state the properties\<close>

text \<open>
  A line as a list of words, each with the white space that follows it, and then \<open>rest\<close>.
\<close>

fun sep_words :: "(string \<times> string) list \<Rightarrow> string \<Rightarrow> string" where
  "sep_words [] rest = rest"
| "sep_words ((w, sep) # items) rest = w @ sep @ sep_words items rest"

text \<open>
  The scanner of \<^verbatim>\<open>tokenize\<close>, started with the given quote state, steps over all of
  \<open>w\<close> (no white space outside quotes); and the quote state it is in behind \<open>w\<close>, which
  is \<open>True\<close> when a quote of \<open>w\<close> is left open.
\<close>

fun is_token :: "bool \<Rightarrow> string \<Rightarrow> bool" where
  "is_token in_quote [] = True"
| "is_token in_quote (c # cs) =
     ((in_quote \<or> \<not> isspace c) \<and> is_token (if is_quote c then \<not> in_quote else in_quote) cs)"

fun ends_in_quote :: "bool \<Rightarrow> string \<Rightarrow> bool" where
  "ends_in_quote in_quote [] = in_quote"
| "ends_in_quote in_quote (c # cs) = ends_in_quote (if is_quote c then \<not> in_quote else in_quote) cs"

text \<open>
  A word with its quotes closed, followed by at least one white-space character.
\<close>

definition word_and_gap :: "string \<times> string \<Rightarrow> bool" where
  "word_and_gap item =
     (fst item \<noteq> [] \<and> is_token False (fst item) \<and> \<not> ends_in_quote False (fst item) \<and>
      snd item \<noteq> [] \<and> list_all isspace (snd item))"

text \<open>Text in which \<^verbatim>\<open>expand_word\<close> finds nothing to expand.\<close>

definition literal_text :: "string \<Rightarrow> bool" where
  "literal_text s = list_all (\<lambda>c. c \<noteq> CHR ''$'' \<and> c \<noteq> CHR ''~'') s"

text \<open>
  The lookup of a parameter as the specification words it: the special pseudo-variables
  \<^verbatim>\<open>?\<close>, \<^verbatim>\<open>$\<close> and \<^verbatim>\<open>!\<close> first, then the variable store read as a mapping from names to
  values, then the process environment as \<^verbatim>\<open>getenv\<close> reads it; a name found in none of
  them gives the empty string.
\<close>

definition spec_special :: "shell \<Rightarrow> string \<Rightarrow> string option" where
  "spec_special st =
     [''?'' \<mapsto> show_int (last_status st), ''$'' \<mapsto> show_int (self_pid st),
      ''!'' \<mapsto> show_int (last_bg_pid st)]"

definition spec_store :: "shell \<Rightarrow> string \<Rightarrow> string option" where
  "spec_store st = map_of (map (\<lambda>v. (var_name v, var_value v)) (vars st))"

definition spec_lookup :: "shell \<Rightarrow> string \<Rightarrow> string" where
  "spec_lookup st name =
     (case spec_special st name of
        Some v \<Rightarrow> v
      | None \<Rightarrow>
          (case spec_store st name of
             Some v \<Rightarrow> v
           | None \<Rightarrow> (case getenv st name of Some v \<Rightarrow> v | None \<Rightarrow> [])))"

text \<open>
  Descriptors 1 and 2 do not refer to a file; and what a step of the shell leaves alone:
  the descriptor table, and (when its output does not go to a file) the files.
\<close>

definition no_file_output :: "shell \<Rightarrow> bool" where
  "no_file_output st = (list_all (\<lambda>fd. case fdtab st fd of Some (File p fl) \<Rightarrow> False | other \<Rightarrow> True) [1, 2])"

definition same_io :: "shell \<Rightarrow> shell \<Rightarrow> bool" where
  "same_io st st' = (fdtab st' = fdtab st \<and> (no_file_output st \<longrightarrow> fs st' = fs st))"

text \<open>
  A shell with one job in the table; the command \<^verbatim>\<open>jobs > f\<close> as the parser builds it; the
  line \<^verbatim>\<open>export FOO="a b\<close>, whose quote is never closed; and a shell with variables in the
  store and in the environment.
\<close>

definition one_job :: shell where
  "one_job = add_job 100 ''background job'' False init_state"

definition jobs_to_f :: command_t where
  "jobs_to_f =
     \<lparr>args = [''jobs''],
      redirects = [\<lparr>redir_fd = 1, redir_file = ''f'', redir_flags = O_WRONLY_CREAT_TRUNC\<rparr>]\<rparr>"

definition unterminated_line :: string where
  "unterminated_line = ''export FOO='' @ [CHR 0x22] @ ''a b''"

definition var_state :: shell where
  "var_state =
     init_state\<lparr>last_status := 3,
       vars := [\<lparr>var_name = ''?'', var_value = ''5'', var_exported = False\<rparr>,
                \<lparr>var_name = ''FOO'', var_value = ''bar'', var_exported = False\<rparr>],
       environ := [''FOO=env'', ''BAR=baz'']\<rparr>"

section \<open>Properties of the job table\<close>

lemma jobs_write_fd: "jobs (write_fd fd s st) = jobs st"
  by (simp add: write_fd_def split: option.splits stream.splits)

lemma jobs_printf: "jobs (printf s st) = jobs st"
  by (simp add: printf_def jobs_write_fd)

lemma length_remove_first: "length (remove_first js pgid) \<le> length js"
  by (induction js) auto

lemma length_jobs_add_job:
  "length (jobs st) \<le> MAX_JOBS \<Longrightarrow> length (jobs (add_job pgid cmd bg st)) \<le> MAX_JOBS"
  by (auto simp: add_job_def Let_def jobs_printf)

lemma length_jobs_sigchld_handler:
  "length (jobs (sigchld_handler reports st)) \<le> length (jobs st)"
proof (induction reports arbitrary: st)
  case Nil
  then show ?case by simp
next
  case (Cons r reports)
  obtain pid status where r: "r = (pid, status)" by (cases r)
  show ?case
  proof (cases "find_job (jobs st) pid")
    case None
    with r Cons.IH show ?thesis by simp
  next
    case (Some i)
    let ?job = "jobs st ! i"
    let ?done = "remove_job pid
        (printf (''['' @ show_int (job_id ?job) @ ''] Done    '' @ job_command ?job @ ''\<newline>'')
           (st\<lparr>jobs := (jobs st)[i := ?job\<lparr>job_state := JOB_DONE\<rparr>]\<rparr>))"
    let ?stopped = "printf (''['' @ show_int (job_id ?job) @ ''] Stopped '' @ job_command ?job @
        ''\<newline>'') (st\<lparr>jobs := (jobs st)[i := ?job\<lparr>job_state := JOB_STOPPED\<rparr>]\<rparr>)"
    let ?running = "st\<lparr>jobs := (jobs st)[i := ?job\<lparr>job_state := JOB_RUNNING\<rparr>]\<rparr>"
    have "length (jobs ?done) \<le> length (jobs st)"
      using length_remove_first [of "(jobs st)[i := ?job\<lparr>job_state := JOB_DONE\<rparr>]" pid]
      by (simp add: remove_job_def jobs_printf)
    moreover have "length (jobs ?stopped) \<le> length (jobs st)"
      by (simp add: jobs_printf)
    moreover have "length (jobs ?running) \<le> length (jobs st)"
      by simp
    moreover have "length (jobs (sigchld_handler reports ?done)) \<le> length (jobs ?done)"
      "length (jobs (sigchld_handler reports ?stopped)) \<le> length (jobs ?stopped)"
      "length (jobs (sigchld_handler reports ?running)) \<le> length (jobs ?running)"
      "length (jobs (sigchld_handler reports st)) \<le> length (jobs st)"
      by (rule Cons.IH)+
    ultimately show ?thesis
      using r Some by (simp add: Let_def del: length_list_update)
  qed
qed

lemma length_jobs_apply_job_op:
  "length (jobs st) \<le> MAX_JOBS \<Longrightarrow> length (jobs (apply_job_op x st)) \<le> MAX_JOBS"
proof (cases x)
  case (Add pgid cmd bg)
  assume "length (jobs st) \<le> MAX_JOBS"
  with Add show ?thesis by (simp add: length_jobs_add_job)
next
  case (Remove pgid)
  assume "length (jobs st) \<le> MAX_JOBS"
  moreover have "length (remove_first (jobs st) pgid) \<le> length (jobs st)"
    by (rule length_remove_first)
  ultimately show ?thesis using Remove by (simp add: remove_job_def)
next
  case (Sigchld reports)
  assume "length (jobs st) \<le> MAX_JOBS"
  moreover have "length (jobs (sigchld_handler reports st)) \<le> length (jobs st)"
    by (rule length_jobs_sigchld_handler)
  ultimately show ?thesis using Sigchld by simp
qed

lemma length_jobs_apply_job_ops:
  "length (jobs st) \<le> MAX_JOBS \<Longrightarrow> length (jobs (apply_job_ops xs st)) \<le> MAX_JOBS"
  by (induction xs arbitrary: st) (simp_all add: length_jobs_apply_job_op)

text \<open>
  No step of the read loop makes the table longer than \<^verbatim>\<open>MAX_JOBS\<close>: only
  \<^verbatim>\<open>add_job\<close> adds an entry.
\<close>

lemma jobs_eprintf: "jobs (eprintf s st) = jobs st"
  by (simp add: eprintf_def jobs_write_fd)

lemma jobs_perror: "jobs (perror os msg st) = jobs st"
  by (simp add: perror_def jobs_eprintf)

lemma jobs_tcsetpgrp: "jobs (tcsetpgrp pgid st) = jobs st"
  by (simp add: tcsetpgrp_def)

lemma jobs_set_var: "jobs (set_var name value exported st) = jobs st"
  by (simp add: set_var_def setenv_def Let_def split: option.splits)

lemma jobs_export_arg: "jobs (export_arg a st) = jobs st"
  by (simp add: export_arg_def jobs_set_var setenv_def Let_def split: option.splits)

lemma jobs_fold: "(\<And>x s. jobs (f x s) = jobs s) \<Longrightarrow> jobs (fold f xs st) = jobs st"
  by (induction xs arbitrary: st) simp_all

lemma length_jobs_run_builtin:
  "length (jobs (snd (run_builtin os cmd st))) \<le> length (jobs st)"
proof -
  have "jobs (snd (builtin_cd os cmd st)) = jobs st"
    by (simp add: builtin_cd_def jobs_eprintf jobs_perror split: option.splits)
  moreover have "jobs (snd (builtin_export cmd st)) = jobs st"
    by (simp add: builtin_export_def jobs_fold jobs_export_arg)
  moreover have "jobs (snd (builtin_jobs st)) = jobs st"
    by (simp add: builtin_jobs_def jobs_fold jobs_printf)
  moreover have "length (jobs (snd (builtin_bg st))) = length (jobs st)"
    by (simp add: builtin_bg_def Let_def jobs_eprintf)
  moreover have "length (jobs (snd (builtin_fg os st))) \<le> length (jobs st)"
    using length_remove_first [of "jobs st" "job_pgid (last (jobs st))"]
    by (simp add: builtin_fg_def Let_def jobs_eprintf jobs_tcsetpgrp remove_job_def tcsetpgrp_def)
  ultimately show ?thesis
    by (simp add: run_builtin_def split: list.splits)
qed

lemma jobs_fork_loop:
  "fork_loop os pl is pgid st = Inr (pgid', st') \<Longrightarrow> jobs st' = jobs st"
  by (induction "is" arbitrary: pgid st)
     (auto simp: Let_def jobs_tcsetpgrp split: if_splits)

lemma length_jobs_execute_pipeline:
  assumes "execute_pipeline os pl st = Inr (r, st')" "length (jobs st) \<le> MAX_JOBS"
  shows "length (jobs st') \<le> MAX_JOBS"
proof (cases "fast_path pl \<or> cmds pl = []")
  case True
  have "length (jobs (snd (run_builtin os (hd (cmds pl)) st))) \<le> length (jobs st)"
    by (rule length_jobs_run_builtin)
  with True assms show ?thesis
    by (auto simp: execute_pipeline_def Let_def split: if_splits prod.splits)
next
  case False
  let ?n = "length (cmds pl)"
  from False assms(1) obtain pgid st1 where fl: "fork_loop os pl [0..<?n] 0 st = Inr (pgid, st1)"
    by (auto simp: execute_pipeline_def Let_def split: if_splits sum.splits)
  then have j1: "jobs st1 = jobs st" by (rule jobs_fork_loop)
  let ?st2 = "st1\<lparr>last_bg_pid := pgid\<rparr>"
  have a: "\<And>cmd bg. length (jobs (add_job pgid cmd bg ?st2)) \<le> MAX_JOBS"
    using assms(2) j1 by (intro length_jobs_add_job) simp
  from False assms(1) fl a j1 assms(2) show ?thesis
    by (auto simp: execute_pipeline_def Let_def jobs_printf jobs_tcsetpgrp
        split: if_splits option.splits)
qed

lemma jobs_regular_token:
  "regular_token os t cur ia st = Inr (cur', ia', st') \<Longrightarrow> jobs st' = jobs st"
  by (auto simp: regular_token_def Let_def jobs_set_var split: if_splits option.splits)

lemma jobs_parse_loop:
  "parse_loop os ts done cur ia st = Inr (cs, st') \<Longrightarrow> jobs st' = jobs st"
proof (induction ts arbitrary: "done" cur ia st rule: length_induct)
  case (1 ts)
  show ?case
  proof (cases ts)
    case Nil
    with "1.prems" show ?thesis by simp
  next
    case (Cons t ts')
    note IH = "1.IH" [rule_format]
    show ?thesis
    proof (cases "t = ''|''")
      case True
      with Cons "1.prems" have "parse_loop os ts' (done @ [cur]) empty_cmd True st = Inr (cs, st')"
        by (simp split: if_splits)
      then show ?thesis using Cons by (intro IH [of ts']) simp_all
    next
      case False
      show ?thesis
      proof (cases "\<exists>fd fl fname ts1. redirect_op t = Some (fd, fl) \<and> ts' = fname # ts1")
        case True
        then obtain fd fl fname ts1 where r: "redirect_op t = Some (fd, fl)" "ts' = fname # ts1"
          by blast
        with False Cons "1.prems" obtain cur1 where
          "parse_loop os ts1 done cur1 ia st = Inr (cs, st')"
          by (simp split: if_splits)
        then show ?thesis using Cons r by (intro IH [of ts1]) simp_all
      next
        case nr: False
        have eq: "parse_loop os (t # ts') done cur ia st =
                  (case regular_token os t cur ia st of
                     Inl f \<Rightarrow> Inl f
                   | Inr (cur1, ia1, st1) \<Rightarrow> parse_loop os ts' done cur1 ia1 st1)"
        proof (cases "redirect_op t")
          case None
          with False show ?thesis by simp
        next
          case (Some a)
          obtain fd fl where "a = (fd, fl)" by (cases a)
          with Some nr have "ts' = []" by (cases ts') simp_all
          with Some False \<open>a = (fd, fl)\<close> show ?thesis
            by (simp split: sum.splits prod.splits)
        qed
        obtain cur1 ia1 st1 where
          rt: "regular_token os t cur ia st = Inr (cur1, ia1, st1)" and
          pl: "parse_loop os ts' done cur1 ia1 st1 = Inr (cs, st')"
        proof (cases "regular_token os t cur ia st")
          case (Inl f)
          with eq Cons "1.prems" show ?thesis by simp
        next
          case (Inr y)
          obtain c1 i1 s1 where "y = (c1, i1, s1)" by (cases y)
          with Inr eq Cons "1.prems" that show ?thesis by simp
        qed
        from rt have "jobs st1 = jobs st" by (rule jobs_regular_token)
        moreover from pl have "jobs st' = jobs st1"
          using Cons by (intro IH [of ts']) simp_all
        ultimately show ?thesis by simp
      qed
    qed
  qed
qed

lemma jobs_parse_pipeline:
  assumes "parse_pipeline os tokens st = Inr (valid, pl, st')"
  shows "jobs st' = jobs st"
proof -
  let ?toks = "drop (if length tokens > 0 \<and> take 1 tokens = [''!''] then 1 else 0)
                 (if length tokens > 0 \<and> last tokens = ''&'' then butlast tokens else tokens)"
  show ?thesis
  proof (cases "parse_loop os ?toks [] empty_cmd True st")
    case (Inl f)
    with assms show ?thesis by (simp add: parse_pipeline_def Let_def)
  next
    case (Inr r)
    obtain cs st1 where r: "r = (cs, st1)" by (cases r)
    from Inr r have "parse_loop os ?toks [] empty_cmd True st = Inr (cs, st1)" by simp
    then have "jobs st1 = jobs st" by (rule jobs_parse_loop)
    moreover from assms Inr r have "st' = st1" by (simp add: parse_pipeline_def Let_def)
    ultimately show ?thesis by simp
  qed
qed

lemma length_jobs_run_tokens:
  assumes "run_tokens os tokens st = Inr st'" "length (jobs st) \<le> MAX_JOBS"
  shows "length (jobs st') \<le> MAX_JOBS"
proof (cases "parse_pipeline os tokens st")
  case (Inl f)
  with assms(1) show ?thesis by (simp add: run_tokens_def)
next
  case (Inr r)
  obtain valid pl st1 where r: "r = (valid, pl, st1)" by (cases r)
  from Inr r have "parse_pipeline os tokens st = Inr (valid, pl, st1)" by simp
  then have j1: "jobs st1 = jobs st" by (rule jobs_parse_pipeline)
  show ?thesis
  proof (cases valid)
    case False
    with assms(1) Inr r have "st' = st1" by (simp add: run_tokens_def)
    with j1 assms(2) show ?thesis by simp
  next
    case True
    show ?thesis
    proof (cases "execute_pipeline os pl st1")
      case (Inl f)
      with assms(1) \<open>parse_pipeline os tokens st = Inr r\<close> r True show ?thesis
        by (simp add: run_tokens_def)
    next
      case ex: (Inr x)
      obtain status st2 where x: "x = (status, st2)" by (cases x)
      from ex x have "execute_pipeline os pl st1 = Inr (status, st2)" by simp
      moreover have "length (jobs st1) \<le> MAX_JOBS" using assms(2) j1 by simp
      ultimately have "length (jobs st2) \<le> MAX_JOBS"
        by (rule length_jobs_execute_pipeline)
      moreover from assms(1) \<open>parse_pipeline os tokens st = Inr r\<close> r True ex x
      have "st' = st2\<lparr>last_status := status\<rparr>" by (simp add: run_tokens_def)
      ultimately show ?thesis by simp
    qed
  qed
qed

lemma length_jobs_main_iteration:
  assumes "main_iteration os raw st = Inr st'" "length (jobs st) \<le> MAX_JOBS"
  shows "length (jobs st') \<le> MAX_JOBS"
proof -
  let ?st2 = "printf ''TTT'' (if interactive st then printf ''$ '' st else st)"
  let ?line = "takeWhile (\<lambda>c. c \<noteq> CHR 0x0A) raw"
  have j2: "length (jobs ?st2) \<le> MAX_JOBS" using assms(2) by (simp add: jobs_printf)
  show ?thesis
  proof (cases "?line = [] \<or> length (tokenize ?line) = 0")
    case True
    then have "main_iteration os raw st = Inr ?st2"
      by (auto simp: main_iteration_def Let_def)
    with assms(1) have "st' = ?st2" by simp
    with j2 show ?thesis by simp
  next
    case False
    then have "main_iteration os raw st = run_tokens os (tokenize ?line) ?st2"
      by (simp add: main_iteration_def Let_def)
    with assms(1) have "run_tokens os (tokenize ?line) ?st2 = Inr st'" by simp
    then show ?thesis using j2 by (rule length_jobs_run_tokens)
  qed
qed

lemma length_jobs_main_loop:
  "main_loop turns st = Inr st' \<Longrightarrow> length (jobs st) \<le> MAX_JOBS \<Longrightarrow>
   length (jobs st') \<le> MAX_JOBS"
proof (induction turns arbitrary: st)
  case Nil
  then show ?case by simp
next
  case (Cons turn turns)
  obtain os raw where turn: "turn = (os, raw)" by (cases turn)
  show ?case
  proof (cases "main_iteration os raw st")
    case (Inl f)
    with Cons.prems(1) turn show ?thesis by simp
  next
    case (Inr st1)
    then have "length (jobs st1) \<le> MAX_JOBS"
      using Cons.prems(2) by (rule length_jobs_main_iteration)
    moreover from Cons.prems(1) turn Inr have "main_loop turns st1 = Inr st'" by simp
    ultimately show ?thesis by (intro Cons.IH)
  qed
qed

text \<open>
  Claim C10. When the table already holds \<^verbatim>\<open>MAX_JOBS\<close> = 64 jobs, \<^verbatim>\<open>add_job\<close> returns
  the whole state as it was: the table is unchanged and nothing is written to any
  descriptor. Hence, from a table of at most 64 jobs, no sequence of \<^verbatim>\<open>add_job\<close> calls,
  \<^verbatim>\<open>remove_job\<close> calls and runs of the SIGCHLD handler, and no sequence of turns of the
  read loop, ever gives more than 64.
\<close>

theorem add_job_full_table:
  "MAX_JOBS = 64 \<and>
   (length (jobs st) \<ge> MAX_JOBS \<longrightarrow> add_job pgid cmd bg st = st) \<and>
   (length (jobs st) \<le> MAX_JOBS \<longrightarrow> length (jobs (apply_job_ops xs st)) \<le> MAX_JOBS) \<and>
   (length (jobs st) \<le> MAX_JOBS \<and> main_loop turns st = Inr st' \<longrightarrow>
      length (jobs st') \<le> MAX_JOBS)"
proof (intro conjI impI)
  show "MAX_JOBS = 64" by (simp add: MAX_JOBS_def)
next
  assume "length (jobs st) \<ge> MAX_JOBS"
  then show "add_job pgid cmd bg st = st" by (simp add: add_job_def)
next
  assume "length (jobs st) \<le> MAX_JOBS"
  then show "length (jobs (apply_job_ops xs st)) \<le> MAX_JOBS"
    by (rule length_jobs_apply_job_ops)
next
  assume "length (jobs st) \<le> MAX_JOBS \<and> main_loop turns st = Inr st'"
  then show "length (jobs st') \<le> MAX_JOBS"
    using length_jobs_main_loop by blast
qed

theorem add_job_full_table_witness:
  "add_job 200 ''background job'' True full_table = full_table \<and>
   length (jobs (apply_job_ops
     [Add 200 ''background job'' True, Sigchld [(100, WExited 0)], Add 300 ''background job'' True]
     full_table)) \<le> 64 \<and>
   length (jobs (projr (main_loop [(os_ok 200 0, ''sleep 1 &\<newline>'')] full_table))) \<le> 64"
proof -
  let ?ops = "[Add 200 ''background job'' True, Sigchld [(100, WExited 0)],
               Add 300 ''background job'' True]"
  let ?turns = "[(os_ok 200 0, ''sleep 1 &\<newline>'')]"
  have len: "length (jobs full_table) = MAX_JOBS"
    by (simp add: full_table_def MAX_JOBS_def)
  have "\<not> isl (main_loop ?turns full_table)"
    by code_simp
  then have run: "main_loop ?turns full_table = Inr (projr (main_loop ?turns full_table))"
    by (cases "main_loop ?turns full_table") simp_all
  note inst = add_job_full_table [of full_table 200 "''background job''" True ?ops ?turns
      "projr (main_loop ?turns full_table)"]
  from inst len have "add_job 200 ''background job'' True full_table = full_table"
    by linarith
  moreover from inst len have "length (jobs (apply_job_ops ?ops full_table)) \<le> 64"
    by linarith
  moreover from inst len run
  have "length (jobs (projr (main_loop ?turns full_table))) \<le> 64"
    by simp
  ultimately show ?thesis by simp
qed

text \<open>
  Removing a job deletes one entry and leaves every other entry, its id included, as it
  was and in the same order.
\<close>

lemma remove_first_decomp:
  "remove_first js pgid = js \<or> (\<exists>pre j post. js = pre @ j # post \<and> remove_first js pgid = pre @ post)"
proof (induction js)
  case Nil
  then show ?case by simp
next
  case (Cons a js)
  show ?case
  proof (cases "job_pgid a = pgid")
    case True
    then have "a # js = [] @ a # js \<and> remove_first (a # js) pgid = [] @ js" by simp
    then show ?thesis by blast
  next
    case False
    from Cons show ?thesis
    proof
      assume "remove_first js pgid = js"
      with False show ?thesis by simp
    next
      assume "\<exists>pre j post. js = pre @ j # post \<and> remove_first js pgid = pre @ post"
      then obtain pre j post where "js = pre @ j # post" "remove_first js pgid = pre @ post"
        by blast
      with False have "a # js = (a # pre) @ j # post \<and> remove_first (a # js) pgid = (a # pre) @ post"
        by simp
      then show ?thesis by blast
    qed
  qed
qed


text \<open>
  Claim C5 (job ids strictly increase with insertion order and are never reused; removal
  keeps the remaining ids). The second half holds (\<open>remove_first_decomp\<close>). The first
  does not: the id is \<^verbatim>\<open>njobs + 1\<close> at insertion, and \<^verbatim>\<open>njobs\<close> goes down at a removal.
  After jobs 100 and 200 are started in the background, job 100 ends and is reaped by the
  handler, and job 300 is started, the table holds the jobs 200 and 300, both with id 2,
  and \<^verbatim>\<open>[2]\<close> has been announced twice.
\<close>

theorem job_ids_reused:
  "map job_id (jobs (apply_job_ops
      [Add 100 ''background job'' True, Add 200 ''background job'' True,
       Sigchld [(100, WExited 0)], Add 300 ''background job'' True] init_state)) = [2, 2] \<and>
   map job_pgid (jobs (apply_job_ops
      [Add 100 ''background job'' True, Add 200 ''background job'' True,
       Sigchld [(100, WExited 0)], Add 300 ''background job'' True] init_state)) = [200, 300] \<and>
   tty_out (apply_job_ops
      [Add 100 ''background job'' True, Add 200 ''background job'' True,
       Sigchld [(100, WExited 0)], Add 300 ''background job'' True] init_state) =
     ''[1] 100\<newline>[2] 200\<newline>[1] Done    background job\<newline>[2] 300\<newline>''"
  by code_simp

section \<open>Properties of pipeline execution\<close>

lemma fork_loop_succeeds:
  "(\<And>i. i \<in> set is \<Longrightarrow> 0 \<le> fork_ret os i) \<Longrightarrow>
   \<exists>pgid' st'. fork_loop os pl is pgid st = Inr (pgid', st')"
proof (induction "is" arbitrary: pgid st)
  case Nil
  then show ?case by simp
next
  case (Cons i "is")
  have "0 \<le> fork_ret os i" using Cons.prems by simp
  moreover have "\<And>p s. \<exists>pgid' st'. fork_loop os pl is p s = Inr (pgid', st')"
    using Cons.IH Cons.prems by simp
  ultimately show ?case by (simp add: Let_def)
qed

lemma fork_loop_negate:
  "fork_loop os (pl\<lparr>negate := b\<rparr>) is pgid st = fork_loop os pl is pgid st"
  by (induction "is" arbitrary: pgid st) (simp_all add: Let_def)

lemma fast_path_negate: "fast_path (pl\<lparr>negate := b\<rparr>) = fast_path pl"
  by (simp add: fast_path_def split: list.splits option.splits)

text \<open>Past the last command, the loop returns the status it holds.\<close>

lemma wait_loop_rest:
  "(\<And>i. i \<in> set is \<Longrightarrow> i \<noteq> n - 1 \<and> \<not> WIFSTOPPED (wait_ret os i)) \<Longrightarrow>
   wait_loop os n is status = Some status"
  by (induction "is" arbitrary: status) (simp_all add: Let_def)

lemma wait_loop_upt:
  assumes "k < n"
      and "\<And>i. k \<le> i \<Longrightarrow> i < n \<Longrightarrow> \<not> WIFSTOPPED (wait_ret os i)"
      and "WIFEXITED (wait_ret os (n - 1)) \<or> WIFSIGNALED (wait_ret os (n - 1))"
  shows "wait_loop os n [k..<n] status =
         Some (if WIFEXITED (wait_ret os (n - 1)) then WEXITSTATUS (wait_ret os (n - 1))
               else 128 + WTERMSIG (wait_ret os (n - 1)))"
  using assms
proof (induction "n - k" arbitrary: k status)
  case 0
  then show ?case by simp
next
  case (Suc d)
  have upt: "[k..<n] = k # [Suc k..<n]"
    using Suc.prems(1) by (simp add: upt_conv_Cons)
  have ns: "\<not> WIFSTOPPED (wait_ret os k)"
    using Suc.prems by simp
  show ?case
  proof (cases "k = n - 1")
    case True
    then have "[Suc k..<n] = []" using Suc.prems(1) by simp
    with True upt ns Suc.prems(3) show ?thesis by (auto simp: Let_def)
  next
    case False
    then have lt: "Suc k < n" using Suc.prems(1) by arith
    have d: "d = n - Suc k" using Suc.hyps(2) by arith
    have "wait_loop os n [Suc k..<n] status =
          Some (if WIFEXITED (wait_ret os (n - 1)) then WEXITSTATUS (wait_ret os (n - 1))
                else 128 + WTERMSIG (wait_ret os (n - 1)))"
      using Suc.hyps(1) [OF d lt] Suc.prems(2,3) by simp
    with False upt ns show ?thesis by (simp add: Let_def)
  qed
qed

lemma wait_loop_no_stop:
  "(\<And>i. i \<in> set is \<Longrightarrow> \<not> WIFSTOPPED (wait_ret os i)) \<Longrightarrow>
   \<exists>s. wait_loop os n is status = Some s"
  by (induction "is" arbitrary: status) (simp_all add: Let_def)

lemma wait_loop_stop:
  "\<exists>i \<in> set is. WIFSTOPPED (wait_ret os i) \<Longrightarrow> wait_loop os n is status = None"
  by (induction "is" arbitrary: status) (auto simp: Let_def)

text \<open>
  When every \<^verbatim>\<open>waitpid\<close> of the loop stores a status (so that \<open>wait_ret os i\<close> is the status
  of child \<open>i\<close>): a foreground pipeline that takes the general path (it is not a single
  foreground builtin), whose pipes and forks succeed and whose processes all terminate
  (each wait status is an exit or a death by signal, none a stop), makes
  \<^verbatim>\<open>execute_pipeline\<close> return, and the value of \<^verbatim>\<open>status\<close> before the negation is the exit
  code of the last command, or 128 + N when the last command was killed by signal N. The
  statuses of the other commands do not occur in the result.
\<close>

lemma status_of_last_when_waited:
  assumes general: "cmds pl \<noteq> []" "\<not> fast_path pl"
                   "\<not> (length (cmds pl) = 1 \<and> arg0 (hd (cmds pl)) = None)"
      and foreground: "\<not> background pl"
      and launched: "\<forall>i < length (cmds pl) - 1. pipe_ok os i"
                    "\<forall>i < length (cmds pl). 0 \<le> fork_ret os i"
      and terminated: "\<forall>i < length (cmds pl).
                         WIFEXITED (wait_ret os i) \<or> WIFSIGNALED (wait_ret os i)"
  shows "\<exists>status st'.
           execute_pipeline os pl st = Inr (if negate pl then c_not status else status, st') \<and>
           (\<forall>e. wait_ret os (length (cmds pl) - 1) = WExited e \<longrightarrow> status = e) \<and>
           (\<forall>N. wait_ret os (length (cmds pl) - 1) = WSignaled N \<longrightarrow> status = 128 + N)"
proof -
  let ?n = "length (cmds pl)"
  let ?w = "wait_ret os (?n - 1)"
  let ?s = "if WIFEXITED ?w then WEXITSTATUS ?w else 128 + WTERMSIG ?w"
  have n: "0 < ?n" using general(1) by simp
  have nostop: "\<And>i. i < ?n \<Longrightarrow> \<not> WIFSTOPPED (wait_ret os i)"
  proof -
    fix i assume "i < ?n"
    with terminated have "WIFEXITED (wait_ret os i) \<or> WIFSIGNALED (wait_ret os i)" by simp
    then show "\<not> WIFSTOPPED (wait_ret os i)" by (cases "wait_ret os i") simp_all
  qed
  have last: "WIFEXITED ?w \<or> WIFSIGNALED ?w" using terminated n by simp
  have wl: "wait_loop os ?n [0..<?n] 0 = Some ?s"
    using wait_loop_upt [of 0 ?n os 0] n nostop last by simp
  obtain pgid st1 where fl: "fork_loop os pl [0..<?n] 0 st = Inr (pgid, st1)"
    using fork_loop_succeeds [of "[0..<?n]" os pl 0 st] launched(2) by auto
  have pipes: "\<not> list_ex (\<lambda>i. \<not> pipe_ok os i) [0..<?n - 1]"
    using launched(1) by (simp add: list_ex_iff)
  have "\<exists>st'. execute_pipeline os pl st = Inr (if negate pl then c_not ?s else ?s, st')"
    using n general(2,3) foreground pipes fl wl
    by (simp add: execute_pipeline_def Let_def)
  moreover have "\<forall>e. ?w = WExited e \<longrightarrow> ?s = e" by simp
  moreover have "\<forall>N. ?w = WSignaled N \<longrightarrow> ?s = 128 + N" by simp
  ultimately show ?thesis by blast
qed


lemma status_of_last_killed:
  "\<not> isl (execute_pipeline os_last_killed
      \<lparr>cmds = [simple_cmd [''false''], simple_cmd [''sleep'', ''9'']], negate = False,
       background = False\<rparr> init_state) \<and>
   fst (projr (execute_pipeline os_last_killed
      \<lparr>cmds = [simple_cmd [''false''], simple_cmd [''sleep'', ''9'']], negate = False,
       background = False\<rparr> init_state)) = 137"
proof -
  let ?pl = "\<lparr>cmds = [simple_cmd [''false''], simple_cmd [''sleep'', ''9'']], negate = False,
       background = False\<rparr>"
  have "cmds ?pl \<noteq> []" "\<not> fast_path ?pl"
    "\<not> (length (cmds ?pl) = 1 \<and> arg0 (hd (cmds ?pl)) = None)" "\<not> background ?pl"
    by (simp_all add: fast_path_def)
  moreover have "\<forall>i < length (cmds ?pl) - 1. pipe_ok os_last_killed i"
    "\<forall>i < length (cmds ?pl). 0 \<le> fork_ret os_last_killed i"
    "\<forall>i < length (cmds ?pl).
       WIFEXITED (wait_ret os_last_killed i) \<or> WIFSIGNALED (wait_ret os_last_killed i)"
    by (simp_all add: os_last_killed_def os_ok_def)
  ultimately obtain status st' where
    "execute_pipeline os_last_killed ?pl init_state =
       Inr (if negate ?pl then c_not status else status, st')"
    "\<forall>N. wait_ret os_last_killed (length (cmds ?pl) - 1) = WSignaled N \<longrightarrow> status = 128 + N"
    using status_of_last_when_waited [of ?pl os_last_killed init_state] by blast
  then show ?thesis by (simp add: os_last_killed_def)
qed

text \<open>
  Claim C1 (the status of a foreground pipeline whose processes all terminate is the exit
  status of its last command). The loop of lines 1177-1198 reads \<^verbatim>\<open>wstatus\<close> without
  testing whether \<^verbatim>\<open>waitpid\<close> stored anything. In the interactive shell, on the line
  \<^verbatim>\<open>sleep 1 | ./exit3.sh\<close>, the second child exits with status 3 while the shell waits for
  the first; the handler collects it (pid 101 is no job, so the handler changes nothing
  in the shell's state), the shell's own \<^verbatim>\<open>waitpid\<close> for pid 101 fails, and with the 0 of
  the preceding iteration still in \<^verbatim>\<open>wstatus\<close> the pipeline returns 0: both processes have
  terminated, the last command has exited with status 3, and the returned status is 0.
\<close>

theorem last_status_lost_to_handler:
  "cmds sleep_exit3 = [simple_cmd [''sleep'', ''1''], simple_cmd [''./exit3.sh'']] \<and>
   \<not> background sleep_exit3 \<and> \<not> negate sleep_exit3 \<and> \<not> fast_path sleep_exit3 \<and>
   interactive init_state \<and>
   fork_ret os_exit3 0 = 100 \<and> fork_ret os_exit3 1 = 101 \<and>
   wait_ret os_exit3 0 = WExited 0 \<and> wait_ret os_exit3 1 = WExited 3 \<and>
   sigchld_handler [(101, WExited 3)] init_state = init_state \<and>
   \<not> isl (execute_pipeline
            (wait_after_handler [(101, WExited 3)] (\<lambda>i. WExited 0) os_exit3)
            sleep_exit3 init_state) \<and>
   fst (projr (execute_pipeline
            (wait_after_handler [(101, WExited 3)] (\<lambda>i. WExited 0) os_exit3)
            sleep_exit3 init_state)) = 0"
  by (simp add: execute_pipeline_def wait_after_handler_def os_exit3_def os_ok_def
      sleep_exit3_def simple_cmd_def arg0_def fast_path_def is_builtin_def init_state_def
      tcsetpgrp_def Let_def)

lemma execute_pipeline_negate_fast:
  assumes "fast_path pl"
      and "execute_pipeline os (pl\<lparr>negate := False\<rparr>) st = Inr (status, st')"
  shows "execute_pipeline os (pl\<lparr>negate := True\<rparr>) st = Inr (c_not status, st')"
proof -
  from assms(1) obtain c a where c: "cmds pl = [c]" "arg0 c = Some a"
    by (auto simp: fast_path_def split: list.splits option.splits)
  obtain s0 st0 where rb: "run_builtin os c st = (s0, st0)"
    by (cases "run_builtin os c st")
  from assms c rb show ?thesis
    by (simp add: execute_pipeline_def fast_path_negate)
qed

lemma execute_pipeline_negate_waited:
  assumes "cmds pl \<noteq> []" "\<not> background pl"
      and "\<forall>i < length (cmds pl). \<not> WIFSTOPPED (wait_ret os i)"
      and "execute_pipeline os (pl\<lparr>negate := False\<rparr>) st = Inr (status, st')"
  shows "execute_pipeline os (pl\<lparr>negate := True\<rparr>) st = Inr (c_not status, st')"
proof (cases "fast_path pl")
  case True
  then show ?thesis using assms(4) by (rule execute_pipeline_negate_fast)
next
  case False
  let ?n = "length (cmds pl)"
  obtain s where wl: "wait_loop os ?n [0..<?n] 0 = Some s"
    using wait_loop_no_stop [of "[0..<?n]" os ?n 0] assms(3) by auto
  from assms(1) have n: "?n \<noteq> 0" by simp
  show ?thesis
  proof (cases "fork_loop os pl [0..<?n] 0 st")
    case (Inl f)
    with assms(2,4) False n wl show ?thesis
      by (simp add: execute_pipeline_def fast_path_negate fork_loop_negate Let_def
          split: if_splits)
  next
    case (Inr r)
    obtain pgid st1 where r: "r = (pgid, st1)" by (cases r)
    from Inr r assms(2,4) False n wl show ?thesis
      by (simp add: execute_pipeline_def fast_path_negate fork_loop_negate Let_def
          split: if_splits)
  qed
qed

lemma execute_pipeline_background_zero:
  assumes "\<not> fast_path pl" "background pl"
      and "execute_pipeline os pl st = Inr (r, st')"
  shows "r = 0"
proof (cases "fork_loop os pl [0..<length (cmds pl)] 0 st")
  case (Inl f)
  with assms show ?thesis
    by (simp add: execute_pipeline_def Let_def split: if_splits)
next
  case (Inr x)
  obtain pgid st1 where "x = (pgid, st1)" by (cases x)
  with Inr assms show ?thesis
    by (simp add: execute_pipeline_def Let_def split: if_splits)
qed

lemma execute_pipeline_stopped_zero:
  assumes "\<not> fast_path pl" "\<exists>i < length (cmds pl). WIFSTOPPED (wait_ret os i)"
      and "execute_pipeline os pl st = Inr (r, st')"
  shows "r = 0"
proof -
  let ?n = "length (cmds pl)"
  from assms(2) have "\<exists>i \<in> set [0..<?n]. WIFSTOPPED (wait_ret os i)"
    by auto
  then have wl: "wait_loop os ?n [0..<?n] 0 = None"
    by (rule wait_loop_stop)
  show ?thesis
  proof (cases "fork_loop os pl [0..<?n] 0 st")
    case (Inl f)
    with assms(1,3) show ?thesis
      by (simp add: execute_pipeline_def Let_def split: if_splits)
  next
    case (Inr x)
    obtain pgid st1 where "x = (pgid, st1)" by (cases x)
    with Inr assms(1,3) wl show ?thesis
      by (simp add: execute_pipeline_def Let_def split: if_splits)
  qed
qed

text \<open>
  Claim C7, as amended. The negation is applied at the two \<^verbatim>\<open>return\<close> statements that
  hold a status: after a builtin on the fast path, and after a foreground pipeline all of
  whose processes were waited for without a stop. There the pipeline with \<^verbatim>\<open>negate\<close> set
  returns \<^verbatim>\<open>!status\<close> of what it returns without: 1 for 0, and 0 for every other value.
  A background pipeline and a pipeline with a stopped process return 0 before the negation
  is reached, whatever the flag.
\<close>

theorem negate_status:
  "(execute_pipeline os (pl\<lparr>negate := False\<rparr>) st = Inr (status, st') \<and>
    (fast_path pl \<or>
     (cmds pl \<noteq> [] \<and> \<not> background pl \<and>
      (\<forall>i < length (cmds pl). \<not> WIFSTOPPED (wait_ret os i))))
    \<longrightarrow> execute_pipeline os (pl\<lparr>negate := True\<rparr>) st =
          Inr (if status = 0 then 1 else 0, st')) \<and>
   (execute_pipeline os pl st = Inr (r, st'') \<and> \<not> fast_path pl \<and>
    (background pl \<or> (\<exists>i < length (cmds pl). WIFSTOPPED (wait_ret os i)))
    \<longrightarrow> r = 0)"
proof (intro conjI impI)
  assume a: "execute_pipeline os (pl\<lparr>negate := False\<rparr>) st = Inr (status, st') \<and>
    (fast_path pl \<or>
     (cmds pl \<noteq> [] \<and> \<not> background pl \<and>
      (\<forall>i < length (cmds pl). \<not> WIFSTOPPED (wait_ret os i))))"
  then have "execute_pipeline os (pl\<lparr>negate := True\<rparr>) st = Inr (c_not status, st')"
    using execute_pipeline_negate_fast execute_pipeline_negate_waited by blast
  then show "execute_pipeline os (pl\<lparr>negate := True\<rparr>) st =
          Inr (if status = 0 then 1 else 0, st')"
    by (simp add: c_not_def)
next
  assume "execute_pipeline os pl st = Inr (r, st'') \<and> \<not> fast_path pl \<and>
    (background pl \<or> (\<exists>i < length (cmds pl). WIFSTOPPED (wait_ret os i)))"
  then show "r = 0"
    using execute_pipeline_background_zero execute_pipeline_stopped_zero by blast
qed

theorem negate_status_witness:
  "fst (projr (execute_pipeline (os_ok 100 127)
      \<lparr>cmds = [simple_cmd [''nosuch'']], negate = True, background = False\<rparr> init_state)) = 0 \<and>
   fst (projr (execute_pipeline (os_ok 100 127)
      \<lparr>cmds = [simple_cmd [''nosuch'']], negate = False, background = True\<rparr> init_state)) = 0"
proof -
  let ?os = "os_ok 100 127"
  let ?pl = "\<lparr>cmds = [simple_cmd [''nosuch'']], negate = True, background = False\<rparr>"
  let ?bg = "\<lparr>cmds = [simple_cmd [''nosuch'']], negate = False, background = True\<rparr>"
  have np: "\<not> fast_path ?pl" "\<not> fast_path ?bg"
    by (simp_all add: fast_path_def simple_cmd_def arg0_def is_builtin_def)
  obtain st' where un: "execute_pipeline ?os (?pl\<lparr>negate := False\<rparr>) init_state = Inr (127, st')"
    using np(1)
    by (simp add: execute_pipeline_def os_ok_def simple_cmd_def arg0_def fast_path_def Let_def)
  have "cmds ?pl \<noteq> [] \<and> \<not> background ?pl \<and>
        (\<forall>i < length (cmds ?pl). \<not> WIFSTOPPED (wait_ret ?os i))"
    by (simp add: os_ok_def)
  with un have "execute_pipeline ?os (?pl\<lparr>negate := True\<rparr>) init_state =
                Inr (if (127::int) = 0 then 1 else 0, st')"
    using negate_status [of ?os ?pl init_state 127 st'] by blast
  then have a: "fst (projr (execute_pipeline ?os ?pl init_state)) = 0" by simp
  obtain r st'' where bg: "execute_pipeline ?os ?bg init_state = Inr (r, st'')"
    using np(2)
    by (simp add: execute_pipeline_def os_ok_def simple_cmd_def arg0_def fast_path_def Let_def)
  then have "r = 0"
    using negate_status [of ?os ?bg init_state _ _ r st''] np(2) by simp
  with bg have "fst (projr (execute_pipeline ?os ?bg init_state)) = 0" by simp
  with a show ?thesis by simp
qed

text \<open>
  Claim C7 as stated (every executed pipeline with \<^verbatim>\<open>negate\<close> set returns \<^verbatim>\<open>!status\<close>
  of the un-negated status) fails for \<^verbatim>\<open>! sleep 1 &\<close>: with and without the flag the call
  returns 0, and \<^verbatim>\<open>!0\<close> is 1.
\<close>

theorem negate_background_counterexample:
  "\<not> isl (execute_pipeline (os_ok 100 0)
      \<lparr>cmds = [simple_cmd [''sleep'', ''1'']], negate = True, background = True\<rparr> init_state) \<and>
   fst (projr (execute_pipeline (os_ok 100 0)
      \<lparr>cmds = [simple_cmd [''sleep'', ''1'']], negate = True, background = True\<rparr> init_state)) = 0 \<and>
   fst (projr (execute_pipeline (os_ok 100 0)
      \<lparr>cmds = [simple_cmd [''sleep'', ''1'']], negate = False, background = True\<rparr> init_state)) = 0 \<and>
   c_not 0 = 1"
  by (simp add: execute_pipeline_def os_ok_def simple_cmd_def arg0_def fast_path_def
      is_builtin_def c_not_def Let_def)

section \<open>Properties of the tokenizer\<close>

lemma scan_token_is_token:
  "is_token q w \<Longrightarrow> rest = [] \<or> (\<not> ends_in_quote q w \<and> isspace (hd rest)) \<Longrightarrow>
   scan_token q (w @ rest) = w"
proof (induction w arbitrary: q)
  case Nil
  then show ?case by (cases rest) auto
next
  case (Cons c w)
  then show ?case by auto
qed

lemma dropWhile_lead:
  "list_all isspace lead \<Longrightarrow> dropWhile isspace (lead @ p) = dropWhile isspace p"
  by (induction lead) simp_all

lemma tokenize_from_empty: "tokenize_from n [] = []"
  by (simp add: tokenize_from.simps)

lemma tokenize_from_lead:
  assumes "list_all isspace lead"
  shows "tokenize_from n (lead @ p) = tokenize_from n p"
proof (cases "lead = []")
  case True
  then show ?thesis by simp
next
  case False
  have dw: "dropWhile isspace (lead @ p) = dropWhile isspace p"
    using assms by (rule dropWhile_lead)
  show ?thesis
  proof (cases "p = []")
    case True
    have "dropWhile isspace lead = []"
      using assms by (induction lead) simp_all
    with True False show ?thesis
      by (subst tokenize_from.simps) (simp add: tokenize_from_empty)
  next
    case p: False
    show ?thesis
      using False p dw
      by (subst tokenize_from.simps, subst (2) tokenize_from.simps) simp
  qed
qed

lemma tokenize_from_token:
  assumes "word_and_gap (w, sep)" "n < MAX_ARGS - 1"
  shows "tokenize_from n (w @ sep @ rest) = w # tokenize_from (Suc n) rest"
proof -
  from assms(1) have w: "w \<noteq> []" "is_token False w" "\<not> ends_in_quote False w"
    and sep: "sep \<noteq> []" "list_all isspace sep"
    by (simp_all add: word_and_gap_def)
  have "\<not> isspace (hd w)" using w(1,2) by (cases w) simp_all
  then have dw: "dropWhile isspace (w @ sep @ rest) = w @ sep @ rest"
    using w(1) by (cases w) simp_all
  have "isspace (hd (sep @ rest))" using sep by (cases sep) simp_all
  then have sc: "scan_token False (w @ sep @ rest) = w"
    using w(2,3) by (intro scan_token_is_token) simp_all
  have "drop 1 (sep @ rest) = tl sep @ rest" using sep(1) by (cases sep) simp_all
  moreover have "list_all isspace (tl sep)" using sep by (cases sep) simp_all
  ultimately have "tokenize_from (Suc n) (drop 1 (sep @ rest)) = tokenize_from (Suc n) rest"
    by (simp add: tokenize_from_lead)
  with dw sc w(1) assms(2) show ?thesis
    by (subst tokenize_from.simps) (simp add: Let_def)
qed

lemma tokenize_from_last:
  assumes "w \<noteq> []" "is_token False w" "n < MAX_ARGS - 1"
  shows "tokenize_from n w = [w]"
proof -
  have "\<not> isspace (hd w)" using assms(1,2) by (cases w) simp_all
  then have "dropWhile isspace w = w"
    using assms(1) by (cases w) simp_all
  moreover have "scan_token False w = w"
    using scan_token_is_token [of False w "[]"] assms(2) by simp
  ultimately show ?thesis
    using assms(1,3) by (subst tokenize_from.simps) (simp add: Let_def tokenize_from_empty)
qed

lemma tokenize_from_sep_words:
  "list_all word_and_gap items \<Longrightarrow> n + length items \<le> MAX_ARGS - 1 \<Longrightarrow>
   tokenize_from n (sep_words items rest) = map fst items @ tokenize_from (n + length items) rest"
proof (induction items arbitrary: n)
  case Nil
  then show ?case by simp
next
  case (Cons item items)
  obtain w sep where item: "item = (w, sep)" by (cases item)
  have "tokenize_from n (w @ sep @ sep_words items rest) =
        w # tokenize_from (Suc n) (sep_words items rest)"
    using Cons.prems item by (intro tokenize_from_token) simp_all
  moreover have "tokenize_from (Suc n) (sep_words items rest) =
                 map fst items @ tokenize_from (Suc n + length items) rest"
    using Cons.prems by (intro Cons.IH) simp_all
  ultimately show ?case using item by simp
qed

text \<open>
  Claim C2, as amended. The tokenizer ends a token at white space outside quotes and
  nowhere else. Every line is leading white space, then words each followed by white
  space, then possibly a last word; when there are at most 127 words, the tokens are
  exactly these words, whatever operator characters they hold. An operator is a token of
  its own only when white space stands on both sides of it, and \<^verbatim>\<open>>>\<close> is a token because
  it is such a word, not because the two characters are joined.
\<close>

theorem tokenize_splits_at_whitespace_only:
  assumes "list_all isspace lead" and "list_all word_and_gap items"
      and "is_token False w" and "length items + (if w = [] then 0 else 1) \<le> MAX_ARGS - 1"
  shows "tokenize (lead @ sep_words items w) = map fst items @ (if w = [] then [] else [w])"
proof -
  have "tokenize (lead @ sep_words items w) = tokenize_from 0 (sep_words items w)"
    using assms(1) by (simp add: tokenize_def tokenize_from_lead)
  also have "\<dots> = map fst items @ tokenize_from (0 + length items) w"
    using assms(2,4) by (intro tokenize_from_sep_words) (simp_all split: if_splits)
  also have "tokenize_from (0 + length items) w = (if w = [] then [] else [w])"
  proof (cases "w = []")
    case True
    then show ?thesis by (simp add: tokenize_from_empty)
  next
    case False
    then have "tokenize_from (length items) w = [w]"
      using assms(3,4) by (intro tokenize_from_last) simp_all
    with False show ?thesis by simp
  qed
  finally show ?thesis .
qed

theorem tokenize_splits_at_whitespace_only_witness:
  "tokenize '' ls|wc >f  2>&1 | wc >> g&'' =
     [''ls|wc'', ''>f'', ''2>&1'', ''|'', ''wc'', ''>>'', ''g&'']"
proof -
  let ?items = "[(''ls|wc'', '' ''), (''>f'', ''  ''), (''2>&1'', '' ''), (''|'', '' ''),
                 (''wc'', '' ''), (''>>'', '' '')]"
  have "list_all isspace '' ''"
    by (simp add: isspace_def)
  moreover have "list_all word_and_gap ?items"
    by (simp add: word_and_gap_def isspace_def is_quote_def)
  moreover have "is_token False ''g&''"
    by (simp add: isspace_def is_quote_def)
  moreover have "length ?items + (if ''g&'' = [] then 0 else 1) \<le> MAX_ARGS - 1"
    by (simp add: MAX_ARGS_def)
  ultimately have "tokenize ('' '' @ sep_words ?items ''g&'') =
                   map fst ?items @ (if ''g&'' = [] then [] else [''g&''])"
    by (rule tokenize_splits_at_whitespace_only)
  then show ?thesis by simp
qed

text \<open>
  Claim C2 as stated (an unquoted operator character ends the current token and is a token
  of its own) fails on \<^verbatim>\<open>ls|wc\<close>, which is one token.
\<close>

theorem tokenize_operator_counterexample:
  "tokenize ''ls|wc'' = [''ls|wc''] \<and> tokenize ''ls|wc'' \<noteq> [''ls'', ''|'', ''wc'']"
  by code_simp

section \<open>Properties of the read loop\<close>

text \<open>
  The parser prints nothing and leaves \<^verbatim>\<open>last_status\<close> alone: a bare assignment, and so
  the whole of \<^verbatim>\<open>parse_pipeline\<close>, changes nothing of the shell but the variable store.
\<close>

lemma set_var_local_vars:
  "set_var name value False st = st\<lparr>vars := vars (set_var name value False st)\<rparr>"
  by (simp add: set_var_def Let_def split: option.splits)

lemma regular_token_vars:
  assumes "regular_token os t cur ia st = Inr (cur', ia', st')"
  shows "st' = st\<lparr>vars := vars st'\<rparr>"
proof (cases "ia \<and> CHR ''='' \<in> set t")
  case True
  with assms have "st' = set_var (takeWhile (\<lambda>c. c \<noteq> CHR ''='') t)
                     (drop 1 (dropWhile (\<lambda>c. c \<noteq> CHR ''='') t)) False st"
    by (simp add: regular_token_def)
  then show ?thesis using set_var_local_vars by simp
next
  case False
  with assms have "st' = st"
    by (auto simp: regular_token_def Let_def split: if_splits option.splits)
  then show ?thesis by simp
qed

lemma vars_only_trans:
  "st1 = st\<lparr>vars := vars st1\<rparr> \<Longrightarrow> st2 = st1\<lparr>vars := vars st2\<rparr> \<Longrightarrow> st2 = st\<lparr>vars := vars st2\<rparr>"
proof -
  assume a: "st1 = st\<lparr>vars := vars st1\<rparr>" and b: "st2 = st1\<lparr>vars := vars st2\<rparr>"
  have "st1\<lparr>vars := vars st2\<rparr> = st\<lparr>vars := vars st2\<rparr>"
    by (subst a) simp
  with b show ?thesis by simp
qed

lemma parse_loop_vars:
  "parse_loop os ts done cur ia st = Inr (cs, st') \<Longrightarrow> st' = st\<lparr>vars := vars st'\<rparr>"
proof (induction ts arbitrary: "done" cur ia st rule: length_induct)
  case (1 ts)
  show ?case
  proof (cases ts)
    case Nil
    with "1.prems" show ?thesis by simp
  next
    case (Cons t ts')
    note IH = "1.IH" [rule_format]
    show ?thesis
    proof (cases "t = ''|''")
      case True
      with Cons "1.prems" have "parse_loop os ts' (done @ [cur]) empty_cmd True st = Inr (cs, st')"
        by (simp split: if_splits)
      then show ?thesis using Cons by (intro IH [of ts']) simp_all
    next
      case False
      show ?thesis
      proof (cases "\<exists>fd fl fname ts1. redirect_op t = Some (fd, fl) \<and> ts' = fname # ts1")
        case True
        then obtain fd fl fname ts1 where r: "redirect_op t = Some (fd, fl)" "ts' = fname # ts1"
          by blast
        with False Cons "1.prems" obtain cur1 where
          "parse_loop os ts1 done cur1 ia st = Inr (cs, st')"
          by (simp split: if_splits)
        then show ?thesis using Cons r by (intro IH [of ts1]) simp_all
      next
        case nr: False
        have eq: "parse_loop os (t # ts') done cur ia st =
                  (case regular_token os t cur ia st of
                     Inl f \<Rightarrow> Inl f
                   | Inr (cur1, ia1, st1) \<Rightarrow> parse_loop os ts' done cur1 ia1 st1)"
        proof (cases "redirect_op t")
          case None
          with False show ?thesis by simp
        next
          case (Some a)
          obtain fd fl where "a = (fd, fl)" by (cases a)
          with Some nr have "ts' = []" by (cases ts') simp_all
          with Some False \<open>a = (fd, fl)\<close> show ?thesis
            by (simp split: sum.splits prod.splits)
        qed
        obtain cur1 ia1 st1 where
          rt: "regular_token os t cur ia st = Inr (cur1, ia1, st1)" and
          pl: "parse_loop os ts' done cur1 ia1 st1 = Inr (cs, st')"
        proof (cases "regular_token os t cur ia st")
          case (Inl f)
          with eq Cons "1.prems" show ?thesis by simp
        next
          case (Inr y)
          obtain c1 i1 s1 where "y = (c1, i1, s1)" by (cases y)
          with Inr eq Cons "1.prems" that show ?thesis by simp
        qed
        from rt have a: "st1 = st\<lparr>vars := vars st1\<rparr>" by (rule regular_token_vars)
        from pl have b: "st' = st1\<lparr>vars := vars st'\<rparr>"
          using Cons by (intro IH [of ts']) simp_all
        from a b show ?thesis by (rule vars_only_trans)
      qed
    qed
  qed
qed

lemma parse_pipeline_vars:
  assumes "parse_pipeline os tokens st = Inr (valid, pl, st')"
  shows "st' = st\<lparr>vars := vars st'\<rparr>"
proof -
  let ?toks = "drop (if length tokens > 0 \<and> take 1 tokens = [''!''] then 1 else 0)
                 (if length tokens > 0 \<and> last tokens = ''&'' then butlast tokens else tokens)"
  show ?thesis
  proof (cases "parse_loop os ?toks [] empty_cmd True st")
    case (Inl f)
    with assms show ?thesis by (simp add: parse_pipeline_def Let_def)
  next
    case (Inr y)
    obtain cs st1 where y: "y = (cs, st1)" by (cases y)
    with Inr have "st1 = st\<lparr>vars := vars st1\<rparr>" by (intro parse_loop_vars) simp
    moreover from Inr y assms have "st' = st1" by (simp add: parse_pipeline_def Let_def)
    ultimately show ?thesis by simp
  qed
qed

lemma ends_in_quote_nonempty: "ends_in_quote False w \<Longrightarrow> w \<noteq> []"
  by (cases w) simp_all

text \<open>
  Claim C6, as amended. A line (of at most 127 tokens) whose last token leaves a quote
  open (the tokenizer keeps one flag, which either quote character switches) is not an
  error. That token runs to the end of the line, white space included, with the quote
  character kept, and the tokens go to \<^verbatim>\<open>parse_pipeline\<close> in the state that holds the
  prompt and the \<^verbatim>\<open>TTT\<close> of line 1954 as the only output. What follows is what follows
  for any list of tokens. If the parser overruns one of its arrays, the turn ends with
  that fault. Otherwise the parser has changed nothing but the variable store, so
  nothing more is printed and \<^verbatim>\<open>last_status\<close> is as before; a pipeline that the parser
  rejects is dropped in that state and the loop goes on; one that it accepts is handed to
  \<^verbatim>\<open>execute_pipeline\<close>, and the turn ends as that call does: with its fault, or with the
  status it returns stored in \<^verbatim>\<open>last_status\<close>.
\<close>

theorem unterminated_quote_is_no_error:
  assumes "list_all isspace lead" and "list_all word_and_gap items"
      and "is_token False w" and "ends_in_quote False w"
      and "length items < MAX_ARGS - 1"
      and "CHR 0x0A \<notin> set (lead @ sep_words items w)"
  shows "tokenize (lead @ sep_words items w) = map fst items @ [w] \<and>
         (case parse_pipeline os (map fst items @ [w])
                 (printf ''TTT'' (if interactive st then printf ''$ '' st else st)) of
            Inl f \<Rightarrow> main_iteration os (lead @ sep_words items w @ ''\<newline>'') st = Inl f
          | Inr (valid, pl, st1) \<Rightarrow>
              st1 = (printf ''TTT'' (if interactive st then printf ''$ '' st else st))
                      \<lparr>vars := vars st1\<rparr> \<and>
              main_iteration os (lead @ sep_words items w @ ''\<newline>'') st =
                (if valid
                 then (case execute_pipeline os pl st1 of
                         Inl f \<Rightarrow> Inl f
                       | Inr (status, st2) \<Rightarrow> Inr (st2\<lparr>last_status := status\<rparr>))
                 else Inr st1))"
proof -
  let ?line = "lead @ sep_words items w"
  let ?raw = "lead @ sep_words items w @ ''\<newline>''"
  let ?st = "printf ''TTT'' (if interactive st then printf ''$ '' st else st)"
  have w: "w \<noteq> []" using assms(4) by (rule ends_in_quote_nonempty)
  have "tokenize ?line = tokenize_from 0 (sep_words items w)"
    using assms(1) by (simp add: tokenize_def tokenize_from_lead)
  also have "\<dots> = map fst items @ tokenize_from (0 + length items) w"
    using assms(2,5) by (intro tokenize_from_sep_words) simp_all
  also have "tokenize_from (0 + length items) w = [w]"
    using w assms(3,5) by (intro tokenize_from_last) simp_all
  finally have tok: "tokenize ?line = map fst items @ [w]" .
  have "takeWhile (\<lambda>c. c \<noteq> CHR 0x0A) (?line @ ''\<newline>'') = ?line"
    using assms(6) by (simp add: takeWhile_append)
  then have cut: "takeWhile (\<lambda>c. c \<noteq> CHR 0x0A) ?raw = ?line"
    by simp
  have ne: "sep_words items w \<noteq> []"
    using w by (induction items) auto
  from cut ne tok have run:
    "main_iteration os ?raw st = run_tokens os (map fst items @ [w]) ?st"
    by (simp add: main_iteration_def Let_def)
  have "case parse_pipeline os (map fst items @ [w]) ?st of
            Inl f \<Rightarrow> main_iteration os ?raw st = Inl f
          | Inr (valid, pl, st1) \<Rightarrow>
              st1 = ?st\<lparr>vars := vars st1\<rparr> \<and>
              main_iteration os ?raw st =
                (if valid
                 then (case execute_pipeline os pl st1 of
                         Inl f \<Rightarrow> Inl f
                       | Inr (status, st2) \<Rightarrow> Inr (st2\<lparr>last_status := status\<rparr>))
                 else Inr st1)"
  proof (cases "parse_pipeline os (map fst items @ [w]) ?st")
    case (Inl f)
    then show ?thesis unfolding run by (simp add: run_tokens_def)
  next
    case (Inr y)
    obtain valid pl st1 where y: "y = (valid, pl, st1)" by (cases y)
    from Inr y have "st1 = ?st\<lparr>vars := vars st1\<rparr>"
      by (intro parse_pipeline_vars) simp
    with Inr y show ?thesis unfolding run by (simp add: run_tokens_def)
  qed
  with tok show ?thesis by (rule conjI)
qed

theorem unterminated_quote_is_no_error_witness:
  "tokenize unterminated_line = [''export'', ''FOO='' @ [CHR 0x22] @ ''a b''] \<and>
   main_iteration (os_ok 100 0) (unterminated_line @ ''\<newline>'') init_state =
     run_tokens (os_ok 100 0) [''export'', ''FOO='' @ [CHR 0x22] @ ''a b'']
       (printf ''TTT'' (printf ''$ '' init_state))"
proof -
  let ?w = "''FOO='' @ [CHR 0x22] @ ''a b''"
  let ?items = "[(''export'', '' '')]"
  let ?st = "printf ''TTT'' (if interactive init_state then printf ''$ '' init_state
                             else init_state)"
  let ?P = "parse_pipeline (os_ok 100 0) (map fst ?items @ [?w]) ?st"
  let ?M = "main_iteration (os_ok 100 0) ([] @ sep_words ?items ?w @ ''\<newline>'') init_state"
  have "list_all isspace []" by simp
  moreover have "list_all word_and_gap ?items"
    by (simp add: word_and_gap_def isspace_def is_quote_def)
  moreover have "is_token False ?w" "ends_in_quote False ?w"
    by (simp_all add: isspace_def is_quote_def)
  moreover have "length ?items < MAX_ARGS - 1"
    by (simp add: MAX_ARGS_def)
  moreover have "CHR 0x0A \<notin> set ([] @ sep_words ?items ?w)"
    by simp
  ultimately have inst:
    "tokenize ([] @ sep_words ?items ?w) = map fst ?items @ [?w] \<and>
     (case ?P of
        Inl f \<Rightarrow> ?M = Inl f
      | Inr (valid, pl, st1) \<Rightarrow>
          st1 = ?st\<lparr>vars := vars st1\<rparr> \<and>
          ?M = (if valid
                then (case execute_pipeline (os_ok 100 0) pl st1 of
                        Inl f \<Rightarrow> Inl f
                      | Inr (status, st2) \<Rightarrow> Inr (st2\<lparr>last_status := status\<rparr>))
                else Inr st1))"
    by (rule unterminated_quote_is_no_error)
  have run: "?M = run_tokens (os_ok 100 0) (map fst ?items @ [?w]) ?st"
  proof (cases ?P)
    case (Inl f)
    from inst have "?M = Inl f" unfolding Inl by simp
    then show ?thesis unfolding run_tokens_def Inl by simp
  next
    case (Inr y)
    obtain valid pl st1 where y: "y = (valid, pl, st1)" by (cases y)
    from inst have "?M = (if valid
                then (case execute_pipeline (os_ok 100 0) pl st1 of
                        Inl f \<Rightarrow> Inl f
                      | Inr (status, st2) \<Rightarrow> Inr (st2\<lparr>last_status := status\<rparr>))
                else Inr st1)"
      unfolding Inr y by simp
    then show ?thesis unfolding run_tokens_def Inr y by simp
  qed
  have i: "interactive init_state" by (simp add: init_state_def)
  from inst have "tokenize unterminated_line = [''export'', ?w]"
    by (simp add: unterminated_line_def)
  moreover from run i have
    "main_iteration (os_ok 100 0) (unterminated_line @ ''\<newline>'') init_state =
     run_tokens (os_ok 100 0) [''export'', ?w] (printf ''TTT'' (printf ''$ '' init_state))"
    by (simp add: unterminated_line_def)
  ultimately show ?thesis by (rule conjI)
qed

text \<open>
  Two lines with an open quote that are not executed: \<^verbatim>\<open>| "x\<close>, which the parser rejects
  because its first command is empty, is dropped without a message and with the last
  status, here 5, unchanged; \<^verbatim>\<open>> "f\<close> is accepted, and \<^verbatim>\<open>execute_pipeline\<close> passes the
  NULL in \<^verbatim>\<open>args[0]\<close> of its only command to \<^verbatim>\<open>is_builtin\<close>.
\<close>

lemma open_quote_line_rejected:
  "\<not> isl (main_iteration (os_ok 100 0) (''| '' @ [CHR 0x22] @ ''x\<newline>'')
            (init_state\<lparr>last_status := 5\<rparr>)) \<and>
   last_status (projr (main_iteration (os_ok 100 0) (''| '' @ [CHR 0x22] @ ''x\<newline>'')
            (init_state\<lparr>last_status := 5\<rparr>))) = 5 \<and>
   tty_out (projr (main_iteration (os_ok 100 0) (''| '' @ [CHR 0x22] @ ''x\<newline>'')
            (init_state\<lparr>last_status := 5\<rparr>))) = ''$ TTT''"
  by code_simp

lemma open_quote_line_without_command:
  "main_iteration (os_ok 100 0) (''> '' @ [CHR 0x22] @ ''f\<newline>'') init_state = Inl NullDeref"
proof -
  have "case main_iteration (os_ok 100 0) (''> '' @ [CHR 0x22] @ ''f\<newline>'') init_state of
          Inl NullDeref \<Rightarrow> True | other \<Rightarrow> False"
    by code_simp
  then show ?thesis by (auto split: sum.splits fault.splits)
qed

text \<open>
  Claim C6 as stated (diagnostic, status 2, line discarded) fails on
  \<^verbatim>\<open>export FOO="a b\<close>: the line is executed, \<^verbatim>\<open>FOO\<close> is exported with the value
  \<^verbatim>\<open>"a b\<close>, the status is 0, and the terminal shows the prompt and the \<^verbatim>\<open>TTT\<close> of
  line 1954 only.
\<close>

theorem unterminated_quote_counterexample:
  "\<not> isl (main_iteration (os_ok 100 0) (unterminated_line @ ''\<newline>'') init_state) \<and>
   last_status (projr (main_iteration (os_ok 100 0) (unterminated_line @ ''\<newline>'') init_state)) = 0 \<and>
   tty_out (projr (main_iteration (os_ok 100 0) (unterminated_line @ ''\<newline>'') init_state)) = ''$ TTT'' \<and>
   getenv (projr (main_iteration (os_ok 100 0) (unterminated_line @ ''\<newline>'') init_state)) ''FOO'' =
     Some ([CHR 0x22] @ ''a b'')"
  by code_simp

section \<open>Properties of expansion\<close>

lemma find_var_map_of:
  "(case find_var vs name of Some i \<Rightarrow> Some (var_value (vs ! i)) | None \<Rightarrow> None) =
   map_of (map (\<lambda>v. (var_name v, var_value v)) vs) name"
  by (induction vs) (auto split: option.splits)

lemma get_var_spec_lookup:
  "(case get_var st name of Some v \<Rightarrow> v | None \<Rightarrow> []) = spec_lookup st name"
proof -
  have "spec_store st name =
        (case find_var (vars st) name of Some i \<Rightarrow> Some (var_value (vars st ! i)) | None \<Rightarrow> None)"
    by (simp add: spec_store_def find_var_map_of)
  then show ?thesis
    by (auto simp: get_var_def spec_lookup_def spec_special_def split: option.splits)
qed

lemma expand_loop_end: "expand_loop os st prev out [] = out"
  by (simp add: expand_loop.simps)

lemma expand_loop_literal:
  "literal_text pre \<Longrightarrow> length out + length pre \<le> MAX_LINE - 1 \<Longrightarrow>
   expand_loop os st prev out (pre @ rest) =
   expand_loop os st (if pre = [] then prev else Some (last pre)) (out @ pre) rest"
proof (induction pre arbitrary: prev out)
  case Nil
  then show ?case by simp
next
  case (Cons c pre)
  have "expand_loop os st prev out ((c # pre) @ rest) =
        expand_loop os st (Some c) (out @ [c]) (pre @ rest)"
    using Cons.prems by (subst expand_loop.simps) (simp add: literal_text_def)
  also have "\<dots> = expand_loop os st (if pre = [] then Some c else Some (last pre))
                    ((out @ [c]) @ pre) rest"
    using Cons.prems by (intro Cons.IH) (simp_all add: literal_text_def)
  finally show ?case by simp
qed

lemma takeWhile_name:
  "list_all P name \<Longrightarrow> rest = [] \<or> \<not> P (hd rest) \<Longrightarrow> takeWhile P (name @ rest) = name"
proof (induction name)
  case Nil
  then show ?case by (cases rest) simp_all
next
  case (Cons c name)
  then show ?case by simp
qed

lemma expand_loop_plain:
  assumes "list_all name_char name" "name \<noteq> []" "length name \<le> 255"
      and "rest = [] \<or> \<not> name_char (hd rest)" and "length out < MAX_LINE - 1"
  shows "expand_loop os st prev out (''$'' @ name @ rest) =
         expand_loop os st (Some (last name)) (copy_bounded out (get_var st name)) rest"
proof -
  have tw: "takeWhile name_char (name @ rest) = name"
    using assms(1,4) by (rule takeWhile_name)
  have nb: "take 1 (name @ rest) \<noteq> ''{''"
    using assms(1,2) by (cases name) (auto simp: name_char_def isalnum_def)
  show ?thesis
    using assms(2,3,5) tw nb by (subst expand_loop.simps) (simp add: Let_def)
qed

lemma expand_loop_braces:
  assumes "CHR ''}'' \<notin> set name" "length name \<le> 255" and "length out < MAX_LINE - 1"
  shows "expand_loop os st prev out (''${'' @ name @ ''}'' @ rest) =
         expand_loop os st (Some (CHR ''}'')) (copy_bounded out (get_var st name)) rest"
proof -
  have tw: "takeWhile (\<lambda>x. x \<noteq> CHR ''}'') (name @ ''}'' @ rest) = name"
    using assms(1) by (induction name) auto
  show ?thesis
    using assms(2,3) tw by (subst expand_loop.simps) (simp add: Let_def)
qed

text \<open>
  The lookup itself is in the order special pseudo-variables, variable store,
  environment (\<open>get_var_spec_lookup\<close>), and it is applied to the right name when the name
  is delimited: in a word made of literal text, an expansion and literal text, where the
  expansion is \<^verbatim>\<open>${NAME}\<close>, or \<^verbatim>\<open>$NAME\<close> followed by nothing or by a character that the loop
  of line 1231 does not take into the name, the expansion is replaced by the value
  found, or by nothing, and the text around it is kept. The bounds are those of the
  buffers of \<^verbatim>\<open>expand_word\<close>: a name of at most 255 characters and a result that fits in
  \<^verbatim>\<open>buf\<close>.
\<close>

lemma expansion_of_delimited_name:
  assumes "literal_text pre" "literal_text post"
      and "length pre + length (spec_lookup st name) + length post < MAX_LINE - 1"
      and "length name \<le> 255"
  shows "(list_all name_char name \<and> name \<noteq> [] \<and> (post = [] \<or> \<not> name_char (hd post))
            \<longrightarrow> expand_word os st (pre @ ''$'' @ name @ post) =
                  pre @ spec_lookup st name @ post) \<and>
         (CHR ''}'' \<notin> set name
            \<longrightarrow> expand_word os st (pre @ ''${'' @ name @ ''}'' @ post) =
                  pre @ spec_lookup st name @ post)"
proof -
  let ?v = "spec_lookup st name"
  have cb: "copy_bounded pre (get_var st name) = pre @ ?v"
    using assms(3) get_var_spec_lookup [of st name]
    by (cases "get_var st name") (auto simp: copy_bounded_def)
  have pre: "\<And>rest. expand_loop os st None [] (pre @ rest) =
               expand_loop os st (if pre = [] then None else Some (last pre)) pre rest"
    using expand_loop_literal [of pre "[]" os st None] assms(1,3) by simp
  have post: "\<And>prev. expand_loop os st prev (pre @ ?v) post = pre @ ?v @ post"
  proof -
    fix prev
    have "expand_loop os st prev (pre @ ?v) (post @ []) =
          expand_loop os st (if post = [] then prev else Some (last post)) ((pre @ ?v) @ post) []"
      using assms(2,3) by (intro expand_loop_literal) simp_all
    then show "expand_loop os st prev (pre @ ?v) post = pre @ ?v @ post"
      by (simp add: expand_loop_end)
  qed
  have lt: "length pre < MAX_LINE - 1" using assms(3) by simp
  show ?thesis
  proof (intro conjI impI)
    assume a: "list_all name_char name \<and> name \<noteq> [] \<and> (post = [] \<or> \<not> name_char (hd post))"
    then have "expand_loop os st (if pre = [] then None else Some (last pre)) pre
                 (''$'' @ name @ post) =
               expand_loop os st (Some (last name)) (copy_bounded pre (get_var st name)) post"
      using assms(4) lt by (intro expand_loop_plain) simp_all
    then show "expand_word os st (pre @ ''$'' @ name @ post) = pre @ ?v @ post"
      using pre [of "''$'' @ name @ post"] post cb by (simp add: expand_word_def)
  next
    assume "CHR ''}'' \<notin> set name"
    then have "expand_loop os st (if pre = [] then None else Some (last pre)) pre
                 (''${'' @ name @ ''}'' @ post) =
               expand_loop os st (Some (CHR ''}'')) (copy_bounded pre (get_var st name)) post"
      using assms(4) lt by (intro expand_loop_braces)
    then show "expand_word os st (pre @ ''${'' @ name @ ''}'' @ post) = pre @ ?v @ post"
      using pre [of "''${'' @ name @ ''}'' @ post"] post cb by (simp add: expand_word_def)
  qed
qed

lemma var_state_lookups:
  "spec_lookup var_state ''?'' = ''3''" "spec_lookup var_state ''FOO'' = ''bar''"
  "spec_lookup var_state ''BAR'' = ''baz''" "spec_lookup var_state ''NOPE'' = []"
  by (simp_all add: spec_lookup_def spec_special_def spec_store_def getenv_def env_match_def
      var_state_def init_state_def show_int_def digits.simps)

lemma expansion_of_delimited_name_examples:
  "expand_word (os_ok 0 0) var_state ''a$?'' = ''a3'' \<and>
   expand_word (os_ok 0 0) var_state ''x${FOO}y'' = ''xbary'' \<and>
   expand_word (os_ok 0 0) var_state ''$BAR/z'' = ''baz/z'' \<and>
   expand_word (os_ok 0 0) var_state ''[${NOPE}]'' = ''[]''"
proof -
  have a: "expand_word (os_ok 0 0) var_state (''a'' @ ''$'' @ ''?'' @ []) = ''a'' @ spec_lookup var_state ''?'' @ []"
    using expansion_of_delimited_name [of "''a''" "[]" var_state "''?''" "os_ok 0 0"]
    by (simp add: literal_text_def MAX_LINE_def name_char_def var_state_lookups)
  have b: "expand_word (os_ok 0 0) var_state (''x'' @ ''${'' @ ''FOO'' @ ''}'' @ ''y'') =
           ''x'' @ spec_lookup var_state ''FOO'' @ ''y''"
    using expansion_of_delimited_name [of "''x''" "''y''" var_state "''FOO''" "os_ok 0 0"]
    by (simp add: literal_text_def MAX_LINE_def var_state_lookups)
  have c: "expand_word (os_ok 0 0) var_state ([] @ ''$'' @ ''BAR'' @ ''/z'') =
           [] @ spec_lookup var_state ''BAR'' @ ''/z''"
    using expansion_of_delimited_name [of "[]" "''/z''" var_state "''BAR''" "os_ok 0 0"]
    by (simp add: literal_text_def MAX_LINE_def name_char_def isalnum_def var_state_lookups)
  have d: "expand_word (os_ok 0 0) var_state (''['' @ ''${'' @ ''NOPE'' @ ''}'' @ '']'') =
           ''['' @ spec_lookup var_state ''NOPE'' @ '']''"
    using expansion_of_delimited_name [of "''[''" "'']''" var_state "''NOPE''" "os_ok 0 0"]
    by (simp add: literal_text_def MAX_LINE_def var_state_lookups)
  from a b c d show ?thesis by (simp add: var_state_lookups)
qed

text \<open>
  The environment is searched as \<^verbatim>\<open>getenv\<close> does it: after \<^verbatim>\<open>export A=B=C\<close> the entry
  \<^verbatim>\<open>A=B=C\<close> also answers the name \<^verbatim>\<open>A=B\<close>.
\<close>

lemma expansion_of_name_with_equals:
  "\<not> isl (main_iteration (os_ok 100 0) ''export A=B=C\<newline>'' init_state) \<and>
   environ (projr (main_iteration (os_ok 100 0) ''export A=B=C\<newline>'' init_state)) =
     [''A=B=C''] \<and>
   expand_word (os_ok 100 0)
     (projr (main_iteration (os_ok 100 0) ''export A=B=C\<newline>'' init_state)) ''x${A=B}y'' =
     ''xCy''"
  by code_simp

text \<open>
  Claim C9 (every parameter expansion \<^verbatim>\<open>$NAME\<close> or \<^verbatim>\<open>${NAME}\<close> is replaced by the value
  of NAME, looked up among the special pseudo-variables, then in the variable store, then
  in the environment). The loop of line 1231 that collects the name of \<^verbatim>\<open>$NAME\<close> accepts
  \<^verbatim>\<open>?\<close>, \<^verbatim>\<open>$\<close> and \<^verbatim>\<open>!\<close> at every position, not only as a name of their own, and does not
  stop after a special name. In a shell where \<^verbatim>\<open>FOO\<close> is \<^verbatim>\<open>bar\<close> in the store, \<^verbatim>\<open>BAR\<close> is
  \<^verbatim>\<open>baz\<close> in the environment and the last status is 3, the words \<^verbatim>\<open>$FOO\<close>, \<^verbatim>\<open>$BAR\<close> and
  \<^verbatim>\<open>$?\<close> expand to these values, but \<^verbatim>\<open>$FOO$BAR\<close> looks up the name \<^verbatim>\<open>FOO$BAR\<close> and
  \<^verbatim>\<open>$?x\<close> the name \<^verbatim>\<open>?x\<close>: both expand to the empty word, where the lookups of \<^verbatim>\<open>FOO\<close>,
  \<^verbatim>\<open>BAR\<close> and \<^verbatim>\<open>?\<close> give \<^verbatim>\<open>barbaz\<close> and \<^verbatim>\<open>3x\<close>.
\<close>

theorem expansion_takes_wrong_name:
  "get_var var_state ''FOO'' = Some ''bar'' \<and>
   get_var var_state ''BAR'' = Some ''baz'' \<and>
   get_var var_state ''?'' = Some ''3'' \<and>
   expand_word (os_ok 0 0) var_state ''$FOO'' = ''bar'' \<and>
   expand_word (os_ok 0 0) var_state ''$BAR'' = ''baz'' \<and>
   expand_word (os_ok 0 0) var_state ''$?'' = ''3'' \<and>
   get_var var_state ''FOO$BAR'' = None \<and>
   expand_word (os_ok 0 0) var_state ''$FOO$BAR'' = [] \<and>
   get_var var_state ''?x'' = None \<and>
   expand_word (os_ok 0 0) var_state ''$?x'' = []"
  by code_simp

section \<open>Properties of the builtin fast path\<close>

lemma same_io_refl: "same_io st st"
  by (simp add: same_io_def)

lemma same_io_trans: "same_io st st1 \<Longrightarrow> same_io st1 st2 \<Longrightarrow> same_io st st2"
  by (auto simp: same_io_def no_file_output_def)

lemma same_io_write_fd: "fd = 1 \<or> fd = 2 \<Longrightarrow> same_io st (write_fd fd s st)"
  by (auto simp: same_io_def write_fd_def no_file_output_def split: option.splits stream.splits)

lemma same_io_printf: "same_io st (printf s st)"
  by (simp add: printf_def same_io_write_fd)

lemma same_io_eprintf: "same_io st (eprintf s st)"
  by (simp add: eprintf_def same_io_write_fd)

lemma same_io_perror: "same_io st (perror os msg st)"
  by (simp add: perror_def same_io_eprintf)

lemma same_io_fields:
  "fdtab st' = fdtab st \<Longrightarrow> fs st' = fs st \<Longrightarrow> same_io st st'"
  by (simp add: same_io_def)

lemma same_io_setenv: "same_io st (setenv name value st)"
  by (simp add: setenv_def same_io_fields)

lemma same_io_set_var: "same_io st (set_var name value exported st)"
  by (auto simp: set_var_def Let_def setenv_def intro!: same_io_fields split: option.splits)

lemma same_io_export_arg: "same_io st (export_arg a st)"
  by (auto simp: export_arg_def Let_def setenv_def same_io_set_var intro!: same_io_fields
      split: option.splits)

lemma same_io_fold:
  "(\<And>x s. same_io s (f x s)) \<Longrightarrow> same_io st (fold f xs st)"
proof (induction xs arbitrary: st)
  case Nil
  then show ?case by (simp add: same_io_refl)
next
  case (Cons x xs)
  have "same_io st (f x st)" by (rule Cons.prems)
  moreover have "same_io (f x st) (fold f xs (f x st))"
    using Cons.prems by (rule Cons.IH)
  ultimately show ?case by (simp add: same_io_trans)
qed

lemma same_io_builtin_cd: "same_io st (snd (builtin_cd os cmd st))"
  by (auto simp: builtin_cd_def same_io_eprintf same_io_perror intro!: same_io_fields
      split: option.splits)

lemma same_io_builtin_export: "same_io st (snd (builtin_export cmd st))"
  by (simp add: builtin_export_def same_io_fold same_io_export_arg)

lemma same_io_builtin_jobs: "same_io st (snd (builtin_jobs st))"
  by (simp add: builtin_jobs_def same_io_fold same_io_printf)

lemma same_io_builtin_bg: "same_io st (snd (builtin_bg st))"
  by (auto simp: builtin_bg_def Let_def same_io_eprintf intro!: same_io_fields)

lemma same_io_builtin_fg: "same_io st (snd (builtin_fg os st))"
  by (auto simp: builtin_fg_def Let_def same_io_eprintf tcsetpgrp_def remove_job_def
      intro!: same_io_fields)

lemma same_io_run_builtin: "same_io st (snd (run_builtin os cmd st))"
  by (auto simp: run_builtin_def same_io_refl same_io_builtin_cd same_io_builtin_export
      same_io_builtin_fg same_io_builtin_bg same_io_builtin_jobs split: list.splits)

lemma run_builtin_redirects:
  "run_builtin os (cmd\<lparr>redirects := rs\<rparr>) st = run_builtin os cmd st"
  by (simp add: run_builtin_def builtin_cd_def builtin_export_def split: list.splits)

text \<open>
  Claim C3, as amended. A pipeline of exactly one command whose \<^verbatim>\<open>argv[0]\<close> is a builtin
  name and whose background flag is false runs the builtin in the shell process, and the
  command's redirections are not applied: the call returns what \<^verbatim>\<open>run_builtin\<close> gives for
  the command without its redirections, the shell's descriptor table is as before, and
  (unless the shell's own output already goes to a file) no file is created or changed.
\<close>

theorem fast_path_ignores_redirections:
  assumes "fast_path pl"
  shows "\<exists>c status st'.
           cmds pl = [c] \<and> run_builtin os (c\<lparr>redirects := []\<rparr>) st = (status, st') \<and>
           execute_pipeline os pl st = Inr (if negate pl then c_not status else status, st') \<and>
           fdtab st' = fdtab st \<and> (no_file_output st \<longrightarrow> fs st' = fs st)"
proof -
  from assms obtain c a where c: "cmds pl = [c]" "arg0 c = Some a"
    by (auto simp: fast_path_def split: list.splits option.splits)
  obtain status st' where rb: "run_builtin os c st = (status, st')"
    by (cases "run_builtin os c st")
  have "same_io st (snd (run_builtin os c st))"
    by (rule same_io_run_builtin)
  with rb have io: "fdtab st' = fdtab st \<and> (no_file_output st \<longrightarrow> fs st' = fs st)"
    by (simp add: same_io_def)
  from assms c rb
  have "execute_pipeline os pl st = Inr (if negate pl then c_not status else status, st')"
    by (simp add: execute_pipeline_def)
  with c rb io show ?thesis
    by (simp add: run_builtin_redirects)
qed

theorem fast_path_ignores_redirections_witness:
  "execute_pipeline (os_ok 200 0) \<lparr>cmds = [jobs_to_f], negate = True, background = False\<rparr> one_job =
     Inr (1, snd (run_builtin (os_ok 200 0) (jobs_to_f\<lparr>redirects := []\<rparr>) one_job)) \<and>
   fdtab (snd (run_builtin (os_ok 200 0) (jobs_to_f\<lparr>redirects := []\<rparr>) one_job)) = fdtab one_job \<and>
   fs (snd (run_builtin (os_ok 200 0) (jobs_to_f\<lparr>redirects := []\<rparr>) one_job)) = fs one_job"
proof -
  let ?pl = "\<lparr>cmds = [jobs_to_f], negate = True, background = False\<rparr>"
  have fp: "fast_path ?pl"
    by (simp add: fast_path_def jobs_to_f_def arg0_def is_builtin_def)
  have nf: "no_file_output one_job"
    by (simp add: no_file_output_def one_job_def add_job_def init_state_def MAX_JOBS_def)
  have st: "fst (run_builtin (os_ok 200 0) (jobs_to_f\<lparr>redirects := []\<rparr>) one_job) = 0"
    by (simp add: run_builtin_def jobs_to_f_def builtin_jobs_def)
  from fast_path_ignores_redirections [OF fp, of "os_ok 200 0" one_job]
  obtain c status st' where
    "cmds ?pl = [c]" "run_builtin (os_ok 200 0) (c\<lparr>redirects := []\<rparr>) one_job = (status, st')"
    "execute_pipeline (os_ok 200 0) ?pl one_job = Inr (if negate ?pl then c_not status else status, st')"
    "fdtab st' = fdtab one_job" "no_file_output one_job \<longrightarrow> fs st' = fs one_job"
    by blast
  with nf st show ?thesis by (auto simp: c_not_def)
qed

text \<open>
  Claim C3 as stated fails on \<^verbatim>\<open>jobs > f\<close> with one job in the table: the listing goes to
  the terminal, and the file \<^verbatim>\<open>f\<close> is not even created.
\<close>

theorem builtin_redirection_counterexample:
  "\<not> isl (execute_pipeline (os_ok 200 0)
      \<lparr>cmds = [jobs_to_f], negate = False, background = False\<rparr> one_job) \<and>
   fs (snd (projr (execute_pipeline (os_ok 200 0)
      \<lparr>cmds = [jobs_to_f], negate = False, background = False\<rparr> one_job))) ''f'' = None \<and>
   tty_out (snd (projr (execute_pipeline (os_ok 200 0)
      \<lparr>cmds = [jobs_to_f], negate = False, background = False\<rparr> one_job))) =
     ''[1] Running    background job\<newline>''"
  by code_simp

section \<open>Properties of the variable store\<close>

text \<open>An exporting assignment puts the value into the environment.\<close>

lemma find_env_replace:
  "env_match name entry \<Longrightarrow> List.find (env_match name) (env_replace name entry es) = Some entry"
  by (induction es) simp_all

lemma getenv_setenv:
  "name \<noteq> [] \<Longrightarrow> CHR ''='' \<notin> set name \<Longrightarrow>
   getenv (setenv name value st) name = Some value"
proof -
  assume a: "name \<noteq> []" "CHR ''='' \<notin> set name"
  have m: "env_match name (name @ ''='' @ value)"
    by (simp add: env_match_def)
  have "List.find (env_match name) (env_replace name (name @ ''='' @ value) (environ st)) =
        Some (name @ ''='' @ value)"
    using m by (rule find_env_replace)
  then show ?thesis
    using a by (simp add: getenv_def setenv_def)
qed

lemma set_var_exported_syncs:
  "name \<noteq> [] \<Longrightarrow> CHR ''='' \<notin> set name \<Longrightarrow>
   getenv (set_var name value True st) name = Some value"
  by (simp add: set_var_def Let_def getenv_setenv split: option.splits)

text \<open>
  A bare assignment leaves the environment as it is, and leaves the flag of an exported
  variable set while it changes the stored value.
\<close>

lemma set_var_local_keeps_environ: "environ (set_var name value False st) = environ st"
  by (simp add: set_var_def Let_def split: option.splits)

lemma set_var_keeps_flag:
  "find_var (vars st) name = Some i \<Longrightarrow> var_exported (vars st ! i) \<Longrightarrow>
   i < length (vars st) \<Longrightarrow>
   var_exported (vars (set_var name value False st) ! i) \<and>
   var_value (vars (set_var name value False st) ! i) = value"
  by (simp add: set_var_def Let_def)

text \<open>
  Claim C4 (every variable whose exported flag is set has an environment entry with the
  value of the store, also after a later bare assignment). The code calls \<^verbatim>\<open>setenv\<close>
  when the parameter \<^verbatim>\<open>exported\<close> of \<^verbatim>\<open>set_var\<close> is set, not when the variable's flag is:
  after the lines \<^verbatim>\<open>export FOO=a\<close> and \<^verbatim>\<open>FOO=b\<close> the store holds \<^verbatim>\<open>FOO\<close> with the value
  \<^verbatim>\<open>b\<close> and the flag set, and the environment still holds \<^verbatim>\<open>FOO=a\<close>.
\<close>

theorem assignment_after_export:
  "\<not> isl (main_loop [(os_ok 100 0, ''export FOO=a\<newline>''), (os_ok 100 0, ''FOO=b\<newline>'')] init_state) \<and>
   vars (projr (main_loop
      [(os_ok 100 0, ''export FOO=a\<newline>''), (os_ok 100 0, ''FOO=b\<newline>'')] init_state)) =
     [\<lparr>var_name = ''FOO'', var_value = ''b'', var_exported = True\<rparr>] \<and>
   getenv (projr (main_loop
      [(os_ok 100 0, ''export FOO=a\<newline>''), (os_ok 100 0, ''FOO=b\<newline>'')] init_state)) ''FOO'' =
     Some ''a'' \<and>
   environ (projr (main_loop
      [(os_ok 100 0, ''export FOO=a\<newline>''), (os_ok 100 0, ''FOO=b\<newline>'')] init_state)) =
     [''FOO=a'']"
  by code_simp

section \<open>The pseudo-variable \<^verbatim>\<open>!\<close>\<close>

text \<open>
  Every pipeline that takes the general path and returns, foreground or background, leaves
  the pid of its first child in \<^verbatim>\<open>last_bg_pid\<close>.
\<close>

lemma last_bg_pid_write_fd: "last_bg_pid (write_fd fd s st) = last_bg_pid st"
  by (simp add: write_fd_def split: option.splits stream.splits)

lemma last_bg_pid_add_job: "last_bg_pid (add_job pgid cmd bg st) = last_bg_pid st"
  by (simp add: add_job_def Let_def printf_def last_bg_pid_write_fd)

lemma fork_loop_pgid:
  "0 \<notin> set is \<Longrightarrow> fork_loop os pl is pgid st = Inr (pgid', st') \<Longrightarrow>
   pgid' = pgid \<and> last_bg_pid st' = last_bg_pid st"
  by (induction "is" arbitrary: pgid st) (auto simp: Let_def split: if_splits)

lemma general_path_sets_last_bg_pid:
  assumes "execute_pipeline os pl st = Inr (r, st')" "\<not> fast_path pl" "cmds pl \<noteq> []"
  shows "last_bg_pid st' = fork_ret os 0"
proof -
  let ?n = "length (cmds pl)"
  have upt: "[0..<?n] = 0 # [1..<?n]"
    using assms(3) by (simp add: upt_conv_Cons)
  from assms obtain pgid st1 where fl: "fork_loop os pl [0..<?n] 0 st = Inr (pgid, st1)"
    by (auto simp: execute_pipeline_def Let_def split: if_splits sum.splits)
  from fl upt have "\<exists>s. fork_loop os pl [1..<?n] (fork_ret os 0) s = Inr (pgid, st1)"
    by (auto simp: Let_def split: if_splits)
  moreover have "0 \<notin> set [1..<?n]" by simp
  ultimately have pg: "pgid = fork_ret os 0"
    using fork_loop_pgid by blast
  let ?st2 = "st1\<lparr>last_bg_pid := pgid\<rparr>"
  have a: "\<And>cmd bg. last_bg_pid (add_job pgid cmd bg ?st2) = pgid"
    by (simp add: last_bg_pid_add_job)
  from assms fl pg a show ?thesis
    by (auto simp: execute_pipeline_def Let_def printf_def last_bg_pid_write_fd tcsetpgrp_def
        split: if_splits option.splits)
qed

text \<open>
  Claim C8 (\<^verbatim>\<open>$!\<close> is the process group of the most recent background pipeline, and a
  foreground pipeline does not change it). \<^verbatim>\<open>last_bg_pid = pgid\<close> on line 1169 stands
  before the test of \<^verbatim>\<open>background\<close>: after \<^verbatim>\<open>sleep 100 &\<close> (process group 100)
  \<^verbatim>\<open>$!\<close> expands to \<^verbatim>\<open>100\<close>, and after the foreground command \<^verbatim>\<open>ls\<close> (process group 200)
  to \<^verbatim>\<open>200\<close>, while the only job is still the one of group 100.
\<close>

theorem foreground_changes_last_bg_pid:
  "\<not> isl (main_loop [(os_ok 100 0, ''sleep 100 &\<newline>'')] init_state) \<and>
   expand_word (os_ok 0 0)
     (projr (main_loop [(os_ok 100 0, ''sleep 100 &\<newline>'')] init_state)) ''$!'' = ''100'' \<and>
   \<not> isl (main_loop [(os_ok 100 0, ''sleep 100 &\<newline>''), (os_ok 200 0, ''ls\<newline>'')] init_state) \<and>
   map job_pgid (jobs (projr (main_loop
     [(os_ok 100 0, ''sleep 100 &\<newline>''), (os_ok 200 0, ''ls\<newline>'')] init_state))) = [100] \<and>
   expand_word (os_ok 0 0)
     (projr (main_loop
       [(os_ok 100 0, ''sleep 100 &\<newline>''), (os_ok 200 0, ''ls\<newline>'')] init_state)) ''$!'' = ''200''"
  by code_simp

end
